theory Spec2Isabelle
  imports Main "HOL-Library.Word"
begin

section \<open>JavaScript strings\<close>

text \<open>
  A JavaScript string is a sequence of 16-bit code units. ASCII literals are written
  with \<open>js\<close>; other characters are given by their code unit.
\<close>

type_synonym jschar = "16 word"
type_synonym jsstring = "jschar list"

definition js :: "string \<Rightarrow> jsstring" where
  "js s = map of_char s"

text \<open>\<open>String.prototype.trim\<close>: the WhiteSpace and LineTerminator code points of ECMA-262.\<close>

definition isSpace :: "jschar \<Rightarrow> bool" where
  "isSpace c \<longleftrightarrow>
     c = 0x9 \<or> c = 0xA \<or> c = 0xB \<or> c = 0xC \<or> c = 0xD \<or> c = 0x20 \<or> c = 0xA0 \<or>
     c = 0x1680 \<or> (0x2000 \<le> c \<and> c \<le> 0x200A) \<or> c = 0x2028 \<or> c = 0x2029 \<or>
     c = 0x202F \<or> c = 0x205F \<or> c = 0x3000 \<or> c = 0xFEFF"

definition trim :: "jsstring \<Rightarrow> jsstring" where
  "trim s = rev (dropWhile isSpace (rev (dropWhile isSpace s)))"

text \<open>Decimal rendering of a non-negative integer, as a template literal prints it.\<close>

fun dec :: "nat \<Rightarrow> jsstring" where
  "dec n = (if n < 10 then [of_nat (48 + n)] else dec (n div 10) @ [of_nat (48 + n mod 10)])"

declare dec.simps [simp del]

section \<open>The page of index.js\<close>

text \<open>
  The model follows the consolidated script, the second of the two that the file holds
  (from \<open>index.js - consolidado y idempotente\<close> on); the first is an earlier draft of the
  same handlers without the background request.

  Every element the script looks up may be absent (\<open>getElementById\<close> returns null), so
  each is an option; the data form is present wherever its handler is bound. \<open>effects\<close>
  is the trace of what the handlers do to the outside: warnings, the cancelled native
  submission, the network request, the download, the sound, the console, and the calls
  that switch the submit control.
\<close>

datatype effect =
    Toast jsstring
  | Alert jsstring
  | PreventDefault
  | Fetch
  | Download jsstring jsstring
  | Sound
  | ConsoleWarn jsstring
  | Procesando bool

record select_el =
  sel_value :: jsstring
  sel_classes :: "jsstring list"

record file_input =
  fi_disabled :: bool
  fi_files :: "jsstring list"

record button_el =
  btn_disabled :: bool
  btn_text :: jsstring

record label_el =
  lbl_text :: jsstring
  lbl_classes :: "jsstring list"
  lbl_default :: "jsstring option"

record page =
  tipoSelect :: "select_el option"
  hiddenMedicion :: "jsstring option"
  inputArchivo :: "file_input option"
  btnProcesar :: "button_el option"
  formClasses :: "jsstring list"
  nombreSpan :: "jsstring option"
  logArea :: "jsstring option"
  inputSpectralon :: "jsstring list option"
  nombreSpectralon :: "label_el option"
  sessionStorage :: "(jsstring \<times> jsstring) list"
  effects :: "effect list"

text \<open>\<open>classList.add\<close> and \<open>classList.remove\<close>.\<close>

definition classAdd :: "jsstring \<Rightarrow> jsstring list \<Rightarrow> jsstring list" where
  "classAdd c cs = (if c \<in> set cs then cs else cs @ [c])"

definition classRemove :: "jsstring list \<Rightarrow> jsstring list \<Rightarrow> jsstring list" where
  "classRemove rs cs = filter (\<lambda>c. c \<notin> set rs) cs"

text \<open>\<open>sessionStorage.getItem\<close>, \<open>setItem\<close>, \<open>removeItem\<close>.\<close>

definition getItem :: "jsstring \<Rightarrow> page \<Rightarrow> jsstring option" where
  "getItem k p = map_of (sessionStorage p) k"

definition removeItem :: "jsstring \<Rightarrow> page \<Rightarrow> page" where
  "removeItem k p = p\<lparr>sessionStorage := filter (\<lambda>kv. fst kv \<noteq> k) (sessionStorage p)\<rparr>"

definition setItem :: "jsstring \<Rightarrow> jsstring \<Rightarrow> page \<Rightarrow> page" where
  "setItem k v p = p\<lparr>sessionStorage := (k, v) # filter (\<lambda>kv. fst kv \<noteq> k) (sessionStorage p)\<rparr>"

text \<open>
  \<open>typeof mostrarToast === 'function' ? mostrarToast(msg) : alert(msg)\<close>; whether the
  toast helper is loaded is a parameter.
\<close>

definition avisar :: "bool \<Rightarrow> jsstring \<Rightarrow> page \<Rightarrow> page" where
  "avisar hasToast msg p = p\<lparr>effects := effects p @ [if hasToast then Toast msg else Alert msg]\<rparr>"

subsection \<open>Helpers of the interface\<close>

definition spanMuted :: jsstring where
  "spanMuted = js ''<span class=\"text-muted\">Ning'' @ [0xFA] @ js ''n archivo seleccionado</span>''"

definition spanOk :: "jsstring \<Rightarrow> jsstring" where
  "spanOk nombre = js ''<span class=\"text-success\">'' @ [0x2705] @ js '' Archivo seleccionado: ''
     @ nombre @ js ''</span>''"

definition spanWarning :: "jsstring \<Rightarrow> jsstring" where
  "spanWarning msg = js ''<span class=\"text-warning\">'' @ [0x26A0, 0xFE0F, 0x20] @ msg @ js ''</span>''"

definition setNombreArchivoOk :: "jsstring \<Rightarrow> page \<Rightarrow> page" where
  "setNombreArchivoOk nombre p =
     (case nombreSpan p of
        None \<Rightarrow> p
      | Some _ \<Rightarrow> if nombre \<noteq> [] then p\<lparr>nombreSpan := Some (spanOk nombre)\<rparr>
                  else p\<lparr>nombreSpan := Some spanMuted\<rparr>)"

definition msgRequeridoDefault :: jsstring where
  "msgRequeridoDefault = js ''Debes volver a cargar el archivo ZIP antes de procesar.''"

definition setNombreArchivoRequerido :: "jsstring \<Rightarrow> page \<Rightarrow> page" where
  "setNombreArchivoRequerido msg p =
     (case nombreSpan p of
        None \<Rightarrow> p
      | Some _ \<Rightarrow> p\<lparr>nombreSpan := Some (spanWarning msg)\<rparr>)"

definition hayTipo :: "page \<Rightarrow> bool" where
  "hayTipo p = (case tipoSelect p of None \<Rightarrow> False | Some s \<Rightarrow> sel_value s \<noteq> [])"

definition habilitarCargaSiHayTipo :: "page \<Rightarrow> page" where
  "habilitarCargaSiHayTipo p =
     (let h = hayTipo p;
          p1 = p\<lparr>inputArchivo := map_option (\<lambda>i. i\<lparr>fi_disabled := \<not> h\<rparr>) (inputArchivo p)\<rparr>
      in p1\<lparr>btnProcesar := map_option (\<lambda>b. b\<lparr>btn_disabled := \<not> h\<rparr>) (btnProcesar p1)\<rparr>)"

text \<open>
  \<open>aplicarColorSelect\<close> lower-cases the value with \<open>toLowerCase\<close>, whose Unicode tables
  belong to the platform: the function is the parameter \<open>lc\<close>.
\<close>

definition aplicarColorSelect :: "(jsstring \<Rightarrow> jsstring) \<Rightarrow> page \<Rightarrow> page" where
  "aplicarColorSelect lc p =
     (case tipoSelect p of
        None \<Rightarrow> p
      | Some s \<Rightarrow>
          (let cs = classRemove [js ''agua'', js ''suelo''] (sel_classes s);
               v = lc (sel_value s)
           in p\<lparr>tipoSelect := Some (s\<lparr>sel_classes :=
                  (if v = js ''agua'' \<or> v = js ''suelo'' then classAdd v cs else cs)\<rparr>)\<rparr>))"

subsection \<open>Initial state and the handlers of the selection guard and the file intake\<close>

definition msgVolverConfig :: jsstring where
  "msgVolverConfig = [0x2139, 0xFE0F] @
     js '' Modificaste Configuraciones. Por favor, vuelve a cargar el archivo ZIP antes de procesar.''"

definition msgCambioTipo :: jsstring where
  "msgCambioTipo = [0x2139, 0xFE0F] @ js '' Cambiaste el tipo de medici'' @ [0xF3] @
     js ''n. Verifica que el ZIP corresponda al tipo seleccionado.''"

definition estadoInicial :: "(jsstring \<Rightarrow> jsstring) \<Rightarrow> bool \<Rightarrow> page \<Rightarrow> page" where
  "estadoInicial lc hasToast p =
     (let p1 = (case (hiddenMedicion p, tipoSelect p) of
                  (Some _, Some s) \<Rightarrow> p\<lparr>hiddenMedicion := Some (sel_value s)\<rparr>
                | _ \<Rightarrow> p);
          p2 = habilitarCargaSiHayTipo (aplicarColorSelect lc p1)
      in if getItem (js ''fue_config_con_zip'') p2 = Some (js ''1'') then
           setNombreArchivoRequerido msgRequeridoDefault
             (avisar hasToast msgVolverConfig
               (removeItem (js ''zip_name'')
                 (removeItem (js ''archivo_seleccionado'')
                   (removeItem (js ''fue_config_con_zip'') p2))))
         else setNombreArchivoOk [] p2)"

text \<open>
  The \<open>change\<close> handler of the type selector; the browser has already stored the new value
  in the element when the handler runs, which \<open>tipoChange\<close> does first.
\<close>

definition tipoChangeHandler :: "(jsstring \<Rightarrow> jsstring) \<Rightarrow> bool \<Rightarrow> page \<Rightarrow> page" where
  "tipoChangeHandler lc hasToast p =
     (case tipoSelect p of
        None \<Rightarrow> p
      | Some s \<Rightarrow>
          (let p1 = (case hiddenMedicion p of None \<Rightarrow> p
                     | Some _ \<Rightarrow> p\<lparr>hiddenMedicion := Some (sel_value s)\<rparr>);
               p2 = habilitarCargaSiHayTipo (aplicarColorSelect lc p1)
           in if getItem (js ''archivo_seleccionado'') p2 = Some (js ''1'')
              then avisar hasToast msgCambioTipo p2 else p2))"

definition tipoChange :: "(jsstring \<Rightarrow> jsstring) \<Rightarrow> bool \<Rightarrow> jsstring \<Rightarrow> page \<Rightarrow> page" where
  "tipoChange lc hasToast v p =
     tipoChangeHandler lc hasToast
       (p\<lparr>tipoSelect := map_option (\<lambda>s. s\<lparr>sel_value := v\<rparr>) (tipoSelect p)\<rparr>)"

text \<open>The \<open>change\<close> handler of the file picker, after the browser has stored the chosen files.\<close>

definition archivoChange :: "jsstring list \<Rightarrow> page \<Rightarrow> page" where
  "archivoChange fs p =
     (case inputArchivo p of
        None \<Rightarrow> p
      | Some i \<Rightarrow>
          (let p1 = p\<lparr>inputArchivo := Some (i\<lparr>fi_files := fs\<rparr>)\<rparr>
           in case fs of
                f # _ \<Rightarrow> setNombreArchivoOk f
                           (setItem (js ''archivo_seleccionado'') (js ''1'')
                             (setItem (js ''zip_name'') f p1))
              | [] \<Rightarrow> setNombreArchivoOk []
                        (removeItem (js ''archivo_seleccionado'')
                          (removeItem (js ''zip_name'') p1))))"

text \<open>
  The guard: each of the two controls that is present is enabled exactly when a type
  is chosen.
\<close>

definition guardOk :: "page \<Rightarrow> bool" where
  "guardOk p \<longleftrightarrow>
     (case inputArchivo p of None \<Rightarrow> True | Some i \<Rightarrow> fi_disabled i = (\<not> hayTipo p)) \<and>
     (case btnProcesar p of None \<Rightarrow> True | Some b \<Rightarrow> btn_disabled b = (\<not> hayTipo p))"

subsection \<open>Submission controller\<close>

text \<open>
  \<open>setProcesando\<close> returns at once when the submit control is absent; the form itself is
  present wherever the handler is bound. Each switch that takes place is recorded in the
  trace.
\<close>

definition lblProcesando :: jsstring where
  "lblProcesando = js ''Procesando'' @ [0x2026]"

definition lblProcesar :: jsstring where
  "lblProcesar = js ''Procesar y descargar''"

definition setProcesando :: "bool \<Rightarrow> page \<Rightarrow> page" where
  "setProcesando isOn p =
     (case btnProcesar p of
        None \<Rightarrow> p
      | Some b \<Rightarrow>
          if isOn then
            p\<lparr>btnProcesar := Some (b\<lparr>btn_disabled := True, btn_text := lblProcesando\<rparr>),
              formClasses := classAdd (js ''opacity-75'') (formClasses p),
              effects := effects p @ [Procesando True]\<rparr>
          else
            p\<lparr>btnProcesar := Some (b\<lparr>btn_disabled := False, btn_text := lblProcesar\<rparr>),
              formClasses := classRemove [js ''opacity-75''] (formClasses p),
              effects := effects p @ [Procesando False]\<rparr>)"

text \<open>
  \<open>appendLog\<close>: the timestamp comes from the clock of the platform; \<open>stamp msg\<close> is the text
  \<open>toLocaleString\<close> yields when \<open>msg\<close> is logged.
\<close>

definition appendLog :: "(jsstring \<Rightarrow> jsstring) \<Rightarrow> jsstring \<Rightarrow> page \<Rightarrow> page" where
  "appendLog stamp msg p =
     (case logArea p of
        None \<Rightarrow> p
      | Some v \<Rightarrow>
          (let line = js ''['' @ stamp msg @ js ''] '' @ msg
           in p\<lparr>logArea := Some ((if v \<noteq> [] then v @ [0xA] else []) @ line)\<rparr>))"

text \<open>
  The response of the server. \<open>resp.ok\<close> is the status range 200 to 299 of the Fetch
  standard. \<open>resp_text\<close> is \<open>None\<close> when \<open>resp.text()\<close> rejects, \<open>resp_blob\<close> is \<open>Inl err\<close>
  when \<open>resp.blob()\<close> rejects, \<open>resp_dispo\<close> is what \<open>headers.get\<close> returns.
\<close>

record response =
  resp_status :: nat
  resp_text :: "jsstring option"
  resp_blob :: "jsstring + jsstring"
  resp_dispo :: "jsstring option"

definition resp_ok :: "response \<Rightarrow> bool" where
  "resp_ok r \<longleftrightarrow> 200 \<le> resp_status r \<and> resp_status r \<le> 299"

text \<open>
  What the handler meets outside the page: whether the toast helper is loaded, the clock,
  the result of \<open>fetch\<close> (a rejection carries the text of the error), an exception thrown
  by the steps that build the download link before it is clicked, and the sound
  callback, which may be absent or throw.
\<close>

datatype fetched = Rejected jsstring | Responded response

datatype sound_cb = NoSound | SoundOk | SoundThrows jsstring

record exchange =
  ex_hasToast :: bool
  ex_stamp :: "jsstring \<Rightarrow> jsstring"
  ex_fetch :: fetched
  ex_download_error :: "jsstring option"
  ex_sound :: sound_cb

text \<open>
  The match of \<open>/filename="([^"]+)"/i\<close>. Without the \<open>u\<close> flag, ignoring case compares the
  upper-case forms of single code units, and a code unit from 128 on never folds to an
  ASCII one: only the two ASCII cases of a letter match it.
\<close>

definition canon :: "jschar \<Rightarrow> jschar" where
  "canon c = (if 0x61 \<le> c \<and> c \<le> 0x7A then c - 0x20 else c)"

fun prefixCI :: "jsstring \<Rightarrow> jsstring \<Rightarrow> jsstring option" where
  "prefixCI [] cs = Some cs"
| "prefixCI (p # ps) [] = None"
| "prefixCI (p # ps) (c # cs) = (if canon c = canon p then prefixCI ps cs else None)"

definition matchAt :: "jsstring \<Rightarrow> jsstring option" where
  "matchAt cs =
     (case prefixCI (js ''filename=\"'') cs of
        None \<Rightarrow> None
      | Some r \<Rightarrow>
          (let v = takeWhile (\<lambda>c. c \<noteq> 0x22) r
           in if v \<noteq> [] \<and> length v < length r then Some v else None))"

fun matchFilename :: "jsstring \<Rightarrow> jsstring option" where
  "matchFilename [] = None"
| "matchFilename (c # cs) =
     (case matchAt (c # cs) of Some v \<Rightarrow> Some v | None \<Rightarrow> matchFilename cs)"

definition downloadName :: "jsstring option \<Rightarrow> jsstring" where
  "downloadName header =
     (let dispo = (case header of None \<Rightarrow> [] | Some h \<Rightarrow> h)
      in case matchFilename dispo of Some v \<Rightarrow> v | None \<Rightarrow> js ''resultados.zip'')"

definition msgSinTipo :: jsstring where
  "msgSinTipo = [0x26A0, 0xFE0F] @ js '' Selecciona un tipo de medici'' @ [0xF3] @
     js ''n antes de procesar.''"

definition msgSinArchivo :: jsstring where
  "msgSinArchivo = [0x26A0, 0xFE0F] @ js '' Debes seleccionar un archivo ZIP antes de procesar.''"

definition msgSeleccionarZip :: jsstring where
  "msgSeleccionarZip = js ''Debes seleccionar un archivo ZIP.''"

definition msgIniciando :: jsstring where
  "msgIniciando = [0x23F3] @ js '' Iniciando procesamiento'' @ [0x2026]"

definition msgErrorServidor :: "nat \<Rightarrow> jsstring \<Rightarrow> jsstring" where
  "msgErrorServidor status txt =
     trim ([0x274C] @ js '' Error del servidor ('' @ dec status @ js ''). '' @ txt)"

definition msgCompletado :: jsstring where
  "msgCompletado = [0x2705] @ js '' Procesamiento completado. Descarga iniciada.''"

definition msgErrorRed :: "jsstring \<Rightarrow> jsstring" where
  "msgErrorRed err = [0x274C] @ js '' Error de red o del cliente: '' @ err"

definition tieneArchivo :: "page \<Rightarrow> bool" where
  "tieneArchivo p = (case inputArchivo p of None \<Rightarrow> False | Some i \<Rightarrow> fi_files i \<noteq> [])"

text \<open>
  The \<open>try\<close> block of the handler. The result is the page where the block stopped, with
  \<open>Some err\<close> when it stopped by an exception (a rejected promise among them) and \<open>None\<close>
  when it ran to its end or left by \<open>return\<close>.
\<close>

definition intercambio :: "exchange \<Rightarrow> page \<Rightarrow> jsstring option \<times> page" where
  "intercambio ex p =
     (let p1 = p\<lparr>effects := effects p @ [Fetch]\<rparr>
      in case ex_fetch ex of
           Rejected err \<Rightarrow> (Some err, p1)
         | Responded r \<Rightarrow>
             if \<not> resp_ok r then
               (let txt = (case resp_text r of None \<Rightarrow> [] | Some t \<Rightarrow> t)
                in (None, setProcesando False
                            (appendLog (ex_stamp ex) (msgErrorServidor (resp_status r) txt) p1)))
             else
               (case resp_blob r of
                  Inl err \<Rightarrow> (Some err, p1)
                | Inr blob \<Rightarrow>
                    (let filename = downloadName (resp_dispo r)
                     in case ex_download_error ex of
                          Some err \<Rightarrow> (Some err, p1)
                        | None \<Rightarrow>
                            (let p2 = p1\<lparr>effects := effects p1 @ [Download filename blob]\<rparr>;
                                 p3 = appendLog (ex_stamp ex) msgCompletado p2
                             in case ex_sound ex of
                                  NoSound \<Rightarrow> (None, p3)
                                | SoundOk \<Rightarrow> (None, p3\<lparr>effects := effects p3 @ [Sound]\<rparr>)
                                | SoundThrows err \<Rightarrow> (Some err, p3)))))"

text \<open>The \<open>submit\<close> handler of the data form: preconditions, then \<open>try\<close>, \<open>catch\<close>, \<open>finally\<close>.\<close>

definition submitDatos :: "exchange \<Rightarrow> page \<Rightarrow> page" where
  "submitDatos ex p =
     (let p0 = p\<lparr>effects := effects p @ [PreventDefault]\<rparr>
      in if \<not> hayTipo p0 then avisar (ex_hasToast ex) msgSinTipo p0
         else if \<not> tieneArchivo p0 then
           setNombreArchivoRequerido msgSeleccionarZip (avisar (ex_hasToast ex) msgSinArchivo p0)
         else
           (let p1 = appendLog (ex_stamp ex) msgIniciando (setProcesando True p0);
                (thrown, p2) = intercambio ex p1;
                p3 = (case thrown of
                        None \<Rightarrow> p2
                      | Some err \<Rightarrow> appendLog (ex_stamp ex) (msgErrorRed err) p2)
            in setProcesando False p3))"

text \<open>How often the trace switches the submit control back on.\<close>

definition restauraciones :: "page \<Rightarrow> nat" where
  "restauraciones p = length (filter (\<lambda>e. e = Procesando False) (effects p))"

text \<open>The effects a handler adds to the trace, and the downloads among them.\<close>

definition nuevos :: "page \<Rightarrow> page \<Rightarrow> effect list" where
  "nuevos p q = drop (length (effects p)) (effects q)"

fun esDescarga :: "effect \<Rightarrow> bool" where
  "esDescarga (Download name blob) = True"
| "esDescarga e = False"

text \<open>The exchange ends with a response of non-success status.\<close>

definition errorServidor :: "exchange \<Rightarrow> bool" where
  "errorServidor ex = (case ex_fetch ex of Responded r \<Rightarrow> \<not> resp_ok r | Rejected err \<Rightarrow> False)"

text \<open>
  What the pattern \<open>filename="<value>"\<close> means for a header: after \<open>pre\<close> comes the key
  word in any mix of cases, then the non-empty value without a double quote, then the
  closing quote.
\<close>

definition nombreEn :: "jsstring \<Rightarrow> jsstring \<Rightarrow> jsstring \<Rightarrow> bool" where
  "nombreEn pre v h \<longleftrightarrow>
     (\<exists>kw post. h = pre @ kw @ v @ 0x22 # post \<and>
        map canon kw = map canon (js ''filename=\"'') \<and> v \<noteq> [] \<and> 0x22 \<notin> set v)"

subsection \<open>Reset controller\<close>

text \<open>
  The statements of the \<open>try\<close> block of the clear form, one by one and in the order of
  the source. The steps on the type selector and on the secondary picker are several
  statements each, under the test that their elements are present.
\<close>

datatype reset_stmt =
    ClearStorage
  | TipoValue
  | TipoClasses
  | PickerValue
  | LabelHtml
  | LogValue
  | SpectralonValue
  | SpectralonDefault
  | SpectralonText
  | SpectralonClass

definition lblSpectralonDefault :: jsstring where
  "lblSpectralonDefault = js ''SRT-99-120.txt (por defecto)''"

text \<open>Whether a statement is reached: the \<open>if\<close> around it.\<close>

fun ejecuta :: "reset_stmt \<Rightarrow> page \<Rightarrow> bool" where
  "ejecuta ClearStorage p = True"
| "ejecuta TipoValue p = (tipoSelect p \<noteq> None)"
| "ejecuta TipoClasses p = (tipoSelect p \<noteq> None)"
| "ejecuta PickerValue p = (inputArchivo p \<noteq> None)"
| "ejecuta LabelHtml p = (nombreSpan p \<noteq> None)"
| "ejecuta LogValue p = (logArea p \<noteq> None)"
| "ejecuta SpectralonValue p = (inputSpectralon p \<noteq> None \<and> nombreSpectralon p \<noteq> None)"
| "ejecuta SpectralonDefault p = (inputSpectralon p \<noteq> None \<and> nombreSpectralon p \<noteq> None)"
| "ejecuta SpectralonText p = (inputSpectralon p \<noteq> None \<and> nombreSpectralon p \<noteq> None)"
| "ejecuta SpectralonClass p = (inputSpectralon p \<noteq> None \<and> nombreSpectralon p \<noteq> None)"

text \<open>
  What a statement does when it does not throw; nothing when it is not reached.
  \<open>SpectralonDefault\<close> reads the attribute \<open>data-default\<close> into a constant and changes
  nothing; \<open>SpectralonText\<close> writes that constant, which is read here from the same
  attribute.
\<close>

fun resetEffect :: "reset_stmt \<Rightarrow> page \<Rightarrow> page" where
  "resetEffect ClearStorage p = p\<lparr>sessionStorage := []\<rparr>"
| "resetEffect TipoValue p =
     p\<lparr>tipoSelect := map_option (\<lambda>s. s\<lparr>sel_value := []\<rparr>) (tipoSelect p)\<rparr>"
| "resetEffect TipoClasses p =
     p\<lparr>tipoSelect := map_option
        (\<lambda>s. s\<lparr>sel_classes := classRemove [js ''agua'', js ''suelo''] (sel_classes s)\<rparr>)
        (tipoSelect p)\<rparr>"
| "resetEffect PickerValue p =
     p\<lparr>inputArchivo := map_option (\<lambda>i. i\<lparr>fi_files := []\<rparr>) (inputArchivo p)\<rparr>"
| "resetEffect LabelHtml p = p\<lparr>nombreSpan := map_option (\<lambda>_. spanMuted) (nombreSpan p)\<rparr>"
| "resetEffect LogValue p = p\<lparr>logArea := map_option (\<lambda>_. []) (logArea p)\<rparr>"
| "resetEffect SpectralonValue p =
     (if nombreSpectralon p = None then p
      else p\<lparr>inputSpectralon := map_option (\<lambda>_. []) (inputSpectralon p)\<rparr>)"
| "resetEffect SpectralonDefault p = p"
| "resetEffect SpectralonText p =
     (if inputSpectralon p = None then p
      else p\<lparr>nombreSpectralon := map_option
             (\<lambda>l. l\<lparr>lbl_text := (case lbl_default l of
                                     None \<Rightarrow> lblSpectralonDefault
                                   | Some d \<Rightarrow> if d \<noteq> [] then d else lblSpectralonDefault)\<rparr>)
             (nombreSpectralon p)\<rparr>)"
| "resetEffect SpectralonClass p =
     (if inputSpectralon p = None then p
      else p\<lparr>nombreSpectralon := map_option
             (\<lambda>l. l\<lparr>lbl_classes := classAdd (js ''text-muted'') (lbl_classes l)\<rparr>)
             (nombreSpectralon p)\<rparr>)"

definition resetStmts :: "reset_stmt list" where
  "resetStmts =
     [ClearStorage, TipoValue, TipoClasses, PickerValue, LabelHtml, LogValue,
      SpectralonValue, SpectralonDefault, SpectralonText, SpectralonClass]"

text \<open>
  Running the statements. Which statement throws, and what, is the parameter \<open>faults\<close>;
  it matters only for a statement that is reached. A statement that throws has no
  effect of its own; what the statements before it did stays. The result is the page
  where the block stopped, with \<open>Some err\<close> when it stopped by an exception.
\<close>

fun runStmts :: "(reset_stmt \<Rightarrow> jsstring option) \<Rightarrow> reset_stmt list \<Rightarrow> page \<Rightarrow> jsstring option \<times> page" where
  "runStmts faults [] p = (None, p)"
| "runStmts faults (s # ss) p =
     (if ejecuta s p then
        (case faults s of
           Some err \<Rightarrow> (Some err, p)
         | None \<Rightarrow> runStmts faults ss (resetEffect s p))
      else runStmts faults ss p)"

text \<open>
  The \<open>submit\<close> handler of the clear form: one \<open>try\<close> around all statements, the \<open>catch\<close>
  writes to the console. It never calls \<open>preventDefault\<close>.
\<close>

definition limpiarHandler :: "(reset_stmt \<Rightarrow> jsstring option) \<Rightarrow> page \<Rightarrow> page" where
  "limpiarHandler faults p =
     (case runStmts faults resetStmts p of
        (None, q) \<Rightarrow> q
      | (Some err, q) \<Rightarrow> q\<lparr>effects := effects q @ [ConsoleWarn err]\<rparr>)"

text \<open>The statement at which the \<open>try\<close> block stops, if any: the first that is reached and throws.\<close>

definition falla :: "(reset_stmt \<Rightarrow> jsstring option) \<Rightarrow> page \<Rightarrow> reset_stmt \<Rightarrow> bool" where
  "falla faults p s \<longleftrightarrow> ejecuta s p \<and> faults s \<noteq> None"

subsection \<open>The states a page can reach\<close>

text \<open>
  The handler of the data form suspends at \<open>await fetch\<close>, and other handlers run before
  the response arrives. \<open>enVuelo\<close> is the handler up to that point, for a submission that
  passes the preconditions; \<open>recibir\<close> is the rest of the \<open>try\<close> block and \<open>alLlegar\<close> the
  rest of the handler, from the page as it is when the response arrives.
\<close>

definition enVuelo :: "exchange \<Rightarrow> page \<Rightarrow> page" where
  "enVuelo ex p =
     (let p1 = appendLog (ex_stamp ex) msgIniciando
                 (setProcesando True (p\<lparr>effects := effects p @ [PreventDefault]\<rparr>))
      in p1\<lparr>effects := effects p1 @ [Fetch]\<rparr>)"

definition recibir :: "exchange \<Rightarrow> page \<Rightarrow> jsstring option \<times> page" where
  "recibir ex p1 =
     (case ex_fetch ex of
        Rejected err \<Rightarrow> (Some err, p1)
      | Responded r \<Rightarrow>
          if \<not> resp_ok r then
            (let txt = (case resp_text r of None \<Rightarrow> [] | Some t \<Rightarrow> t)
             in (None, setProcesando False
                         (appendLog (ex_stamp ex) (msgErrorServidor (resp_status r) txt) p1)))
          else
            (case resp_blob r of
               Inl err \<Rightarrow> (Some err, p1)
             | Inr blob \<Rightarrow>
                 (let filename = downloadName (resp_dispo r)
                  in case ex_download_error ex of
                       Some err \<Rightarrow> (Some err, p1)
                     | None \<Rightarrow>
                         (let p2 = p1\<lparr>effects := effects p1 @ [Download filename blob]\<rparr>;
                              p3 = appendLog (ex_stamp ex) msgCompletado p2
                          in case ex_sound ex of
                               NoSound \<Rightarrow> (None, p3)
                             | SoundOk \<Rightarrow> (None, p3\<lparr>effects := effects p3 @ [Sound]\<rparr>)
                             | SoundThrows err \<Rightarrow> (Some err, p3)))))"

definition alLlegar :: "exchange \<Rightarrow> page \<Rightarrow> page" where
  "alLlegar ex q =
     (let (thrown, p2) = recibir ex q;
          p3 = (case thrown of
                  None \<Rightarrow> p2
                | Some err \<Rightarrow> appendLog (ex_stamp ex) (msgErrorRed err) p2)
      in setProcesando False p3)"

text \<open>
  The pages a session reaches, with the flag that tells whether a request is in flight:
  the initial-state code, then type changes, file selections and the reset handler at
  any time, a submission when no request is in flight, and the arrival of the response
  when one is.
\<close>

inductive alcanzable :: "(jsstring \<Rightarrow> jsstring) \<Rightarrow> bool \<Rightarrow> page \<Rightarrow> bool" for lc where
  a_init: "alcanzable lc False (estadoInicial lc hasToast p)"
| a_tipo: "alcanzable lc b p \<Longrightarrow> alcanzable lc b (tipoChange lc hasToast v p)"
| a_archivo: "alcanzable lc b p \<Longrightarrow> alcanzable lc b (archivoChange fs p)"
| a_limpiar: "alcanzable lc b p \<Longrightarrow> alcanzable lc b (limpiarHandler faults p)"
| a_bloqueado: "alcanzable lc False p \<Longrightarrow> \<not> (hayTipo p \<and> tieneArchivo p) \<Longrightarrow>
     alcanzable lc False (submitDatos ex p)"
| a_envio: "alcanzable lc False p \<Longrightarrow> hayTipo p \<Longrightarrow> tieneArchivo p \<Longrightarrow>
     alcanzable lc True (enVuelo ex p)"
| a_llegada: "alcanzable lc True p \<Longrightarrow> alcanzable lc False (alLlegar ex p)"

section \<open>The platform functions config.js calls\<close>

subsection \<open>\<open>JSON.parse\<close>\<close>

text \<open>
  \<open>JSON.parse\<close> is a function of the platform. It is modelled after the JSON grammar of
  ECMA-404, which ECMA-262 prescribes for it: a recursive-descent parser over code units.
  A number keeps its lexeme; \<open>None\<close> is the \<open>SyntaxError\<close>.
\<close>

datatype json =
    JNull
  | JBool bool
  | JNum jsstring
  | JStr jsstring
  | JArr "json list"
  | JObj "(jsstring \<times> json) list"

definition isWs :: "jschar \<Rightarrow> bool" where
  "isWs c \<longleftrightarrow> c = 0x20 \<or> c = 0x9 \<or> c = 0xA \<or> c = 0xD"

definition skipWs :: "jsstring \<Rightarrow> jsstring" where
  "skipWs cs = dropWhile isWs cs"

definition isDigit :: "jschar \<Rightarrow> bool" where
  "isDigit c \<longleftrightarrow> 0x30 \<le> c \<and> c \<le> 0x39"

definition hexVal :: "jschar \<Rightarrow> nat option" where
  "hexVal c =
     (if 0x30 \<le> c \<and> c \<le> 0x39 then Some (unat c - 48)
      else if 0x61 \<le> c \<and> c \<le> 0x66 then Some (unat c - 87)
      else if 0x41 \<le> c \<and> c \<le> 0x46 then Some (unat c - 55)
      else None)"

definition unescape :: "jschar \<Rightarrow> jschar option" where
  "unescape e =
     (if e = 0x22 then Some 0x22
      else if e = 0x5C then Some 0x5C
      else if e = 0x2F then Some 0x2F
      else if e = 0x62 then Some 0x8
      else if e = 0x66 then Some 0xC
      else if e = 0x6E then Some 0xA
      else if e = 0x72 then Some 0xD
      else if e = 0x74 then Some 0x9
      else None)"

text \<open>
  The characters of a string after its opening quote, up to the closing one: no raw
  control character, the two-character escapes and \<open>\uXXXX\<close>.
\<close>

fun parseChars :: "jsstring \<Rightarrow> (jsstring \<times> jsstring) option" where
  "parseChars [] = None"
| "parseChars (c # cs) =
     (if c = 0x22 then Some ([], cs)
      else if c = 0x5C then
        (case cs of
           [] \<Rightarrow> None
         | e # r \<Rightarrow>
             if e = 0x75 then
               (case r of
                  h1 # h2 # h3 # h4 # r' \<Rightarrow>
                    (case (hexVal h1, hexVal h2, hexVal h3, hexVal h4) of
                       (Some a, Some b, Some c', Some d) \<Rightarrow>
                         (case parseChars r' of
                            None \<Rightarrow> None
                          | Some (s, t) \<Rightarrow> Some (of_nat (((a * 16 + b) * 16 + c') * 16 + d) # s, t))
                     | _ \<Rightarrow> None)
                | _ \<Rightarrow> None)
             else
               (case unescape e of
                  None \<Rightarrow> None
                | Some x \<Rightarrow>
                    (case parseChars r of None \<Rightarrow> None | Some (s, t) \<Rightarrow> Some (x # s, t))))
      else if c < 0x20 then None
      else (case parseChars cs of None \<Rightarrow> None | Some (s, t) \<Rightarrow> Some (c # s, t)))"

text \<open>
  A number: optional minus, \<open>0\<close> or a digit sequence without leading zero, optional
  fraction with at least one digit, optional exponent with at least one digit.
\<close>

definition parseNumber :: "jsstring \<Rightarrow> (jsstring \<times> jsstring) option" where
  "parseNumber cs =
     (let (sign, r0) = (case cs of c # r \<Rightarrow> if c = 0x2D then ([c], r) else ([], cs) | [] \<Rightarrow> ([], cs))
      in case r0 of
           [] \<Rightarrow> None
         | d # r1 \<Rightarrow>
             if \<not> isDigit d then None
             else
               (let (ent, r2) = (if d = 0x30 then ([d], r1)
                                 else (d # takeWhile isDigit r1, dropWhile isDigit r1));
                    frac = (case r2 of
                              c # r \<Rightarrow> if c = 0x2E then Some (c # takeWhile isDigit r, dropWhile isDigit r)
                                       else Some ([], r2)
                            | [] \<Rightarrow> Some ([], r2))
                in case frac of
                     None \<Rightarrow> None
                   | Some (fr, r3) \<Rightarrow>
                       if length fr = 1 then None
                       else
                         (case r3 of
                            [] \<Rightarrow> Some (sign @ ent @ fr, r3)
                          | e # r \<Rightarrow>
                              if e = 0x65 \<or> e = 0x45 then
                                (let (sg, r4) = (case r of
                                                   c # r' \<Rightarrow> if c = 0x2B \<or> c = 0x2D then ([c], r') else ([], r)
                                                 | [] \<Rightarrow> ([], r));
                                     ds = takeWhile isDigit r4
                                 in if ds = [] then None
                                    else Some (sign @ ent @ fr @ [e] @ sg @ ds, dropWhile isDigit r4))
                              else Some (sign @ ent @ fr, r3))))"

definition parseLiteral :: "jsstring \<Rightarrow> (json \<times> jsstring) option" where
  "parseLiteral cs =
     (if take 4 cs = js ''null'' then Some (JNull, drop 4 cs)
      else if take 4 cs = js ''true'' then Some (JBool True, drop 4 cs)
      else if take 5 cs = js ''false'' then Some (JBool False, drop 5 cs)
      else None)"

text \<open>
  Values, the elements of an array after \<open>[\<close> or a comma, and the members of an object
  after \<open>{\<close> or a comma. The test \<open>length r' < length cs\<close> before the call for the next
  element only makes the recursion well-founded: what is left after a value and a comma
  is always shorter.
\<close>

function parseValue :: "jsstring \<Rightarrow> (json \<times> jsstring) option"
  and parseElements :: "jsstring \<Rightarrow> (json list \<times> jsstring) option"
  and parseMembers :: "jsstring \<Rightarrow> ((jsstring \<times> json) list \<times> jsstring) option"
where
  "parseValue cs =
     (case cs of
        [] \<Rightarrow> None
      | c # r \<Rightarrow>
          if c = 0x5B then
            (case skipWs r of
               [] \<Rightarrow> None
             | d # r' \<Rightarrow>
                 if d = 0x5D then Some (JArr [], r')
                 else (case parseElements r of
                         None \<Rightarrow> None
                       | Some (vs, t) \<Rightarrow> Some (JArr vs, t)))
          else if c = 0x7B then
            (case skipWs r of
               [] \<Rightarrow> None
             | d # r' \<Rightarrow>
                 if d = 0x7D then Some (JObj [], r')
                 else (case parseMembers r of
                         None \<Rightarrow> None
                       | Some (kvs, t) \<Rightarrow> Some (JObj kvs, t)))
          else if c = 0x22 then
            (case parseChars r of None \<Rightarrow> None | Some (s, t) \<Rightarrow> Some (JStr s, t))
          else if c = 0x2D \<or> isDigit c then
            (case parseNumber cs of None \<Rightarrow> None | Some (n, t) \<Rightarrow> Some (JNum n, t))
          else parseLiteral cs)"
| "parseElements cs =
     (case parseValue (skipWs cs) of
        None \<Rightarrow> None
      | Some (v, r) \<Rightarrow>
          (case skipWs r of
             [] \<Rightarrow> None
           | d # r' \<Rightarrow>
               if d = 0x5D then Some ([v], r')
               else if d = 0x2C \<and> length r' < length cs then
                 (case parseElements r' of
                    None \<Rightarrow> None
                  | Some (vs, t) \<Rightarrow> Some (v # vs, t))
               else None))"
| "parseMembers cs =
     (case skipWs cs of
        [] \<Rightarrow> None
      | q # r \<Rightarrow>
          if q \<noteq> 0x22 then None
          else
            (case parseChars r of
               None \<Rightarrow> None
             | Some (k, r1) \<Rightarrow>
                 (case skipWs r1 of
                    [] \<Rightarrow> None
                  | col # r2 \<Rightarrow>
                      if col \<noteq> 0x3A then None
                      else
                        (case parseValue (skipWs r2) of
                           None \<Rightarrow> None
                         | Some (v, r3) \<Rightarrow>
                             (case skipWs r3 of
                                [] \<Rightarrow> None
                              | d # r4 \<Rightarrow>
                                  if d = 0x7D then Some ([(k, v)], r4)
                                  else if d = 0x2C \<and> length r4 < length cs then
                                    (case parseMembers r4 of
                                       None \<Rightarrow> None
                                     | Some (kvs, t) \<Rightarrow> Some ((k, v) # kvs, t))
                                  else None)))))"
  by pat_completeness auto

termination
proof (relation "measure (\<lambda>x. case x of
         Inl cs \<Rightarrow> 2 * length cs
       | Inr (Inl cs) \<Rightarrow> 2 * length cs + 1
       | Inr (Inr cs) \<Rightarrow> 2 * length cs + 1)", goal_cases)
  case (4 cs)
  then show ?case using length_dropWhile_le [of isWs cs] by (simp add: skipWs_def)
next
  case (6 cs q r kr k r1 col r2)
  have ws: "length (skipWs xs) \<le> length xs" for xs
    by (simp add: skipWs_def length_dropWhile_le)
  have str: "parseChars xs = Some (s, t) \<Longrightarrow> length t < length xs" for xs s t
  proof (induction xs arbitrary: s t rule: parseChars.induct)
    case 1
    then show ?case by simp
  next
    case (2 c cs)
    then show ?case
      by (auto split: if_splits list.splits option.splits prod.splits) fastforce+
  qed
  have "length (skipWs r2) \<le> length r2" by (rule ws)
  moreover have "length r2 < length r1" using 6 ws [of r1] by simp
  moreover have "length r1 < length r" using 6 str by blast
  moreover have "length r < length cs" using 6 ws [of cs] by simp
  ultimately show ?case by simp
qed simp_all

definition jsonParse :: "jsstring \<Rightarrow> json option" where
  "jsonParse text =
     (case parseValue (skipWs text) of
        None \<Rightarrow> None
      | Some (v, r) \<Rightarrow> if skipWs r = [] then Some v else None)"


declare parseValue.simps [simp del] parseElements.simps [simp del] parseMembers.simps [simp del]

subsection \<open>\<open>String\<close>, \<open>Array.prototype.join\<close> and \<open>JSON.stringify\<close>\<close>

fun joinWith :: "jsstring \<Rightarrow> jsstring list \<Rightarrow> jsstring" where
  "joinWith sep [] = []"
| "joinWith sep [x] = x"
| "joinWith sep (x # y # ys) = x @ sep @ joinWith sep (y # ys)"

text \<open>
  \<open>String(v)\<close> for a value that came from \<open>JSON.parse\<close>. The text of a number is the
  shortest decimal form of its IEEE double, which belongs to the platform: \<open>nt\<close> maps
  the lexeme to that text. An array is its elements joined by commas, \<open>null\<close> elements
  as empty text. A plain object is \<open>[object Object]\<close>, unless it has an own key
  \<open>toString\<close>: its value is never callable, the inherited \<open>valueOf\<close> returns the object,
  and the conversion throws a \<open>TypeError\<close>, which is \<open>None\<close> here.
\<close>

fun jsString :: "(jsstring \<Rightarrow> jsstring) \<Rightarrow> json \<Rightarrow> jsstring option" where
  "jsString nt JNull = Some (js ''null'')"
| "jsString nt (JBool b) = Some (if b then js ''true'' else js ''false'')"
| "jsString nt (JNum l) = Some (nt l)"
| "jsString nt (JStr s) = Some s"
| "jsString nt (JArr vs) =
     map_option (joinWith [0x2C])
       (those (map (\<lambda>v. if v = JNull then Some [] else jsString nt v) vs))"
| "jsString nt (JObj kvs) =
     (if js ''toString'' \<in> fst ` set kvs then None else Some (js ''[object Object]''))"

text \<open>
  The same conversion as a relation, case by case after \<open>ToString\<close> of ECMA-262: the
  text of \<open>null\<close>, of a boolean, of a number, of a string; of an array, the texts of its
  elements joined by commas, with a \<open>null\<close> element as the empty text; of an object
  without own key \<open>toString\<close>, \<open>[object Object]\<close>. An object with that key has no text.
\<close>

inductive textoDe :: "(jsstring \<Rightarrow> jsstring) \<Rightarrow> json \<Rightarrow> jsstring \<Rightarrow> bool" for nt where
  t_null: "textoDe nt JNull (js ''null'')"
| t_true: "textoDe nt (JBool True) (js ''true'')"
| t_false: "textoDe nt (JBool False) (js ''false'')"
| t_num: "textoDe nt (JNum l) (nt l)"
| t_str: "textoDe nt (JStr s) s"
| t_arr: "list_all2 (\<lambda>v s. (v = JNull \<and> s = []) \<or> (v \<noteq> JNull \<and> textoDe nt v s)) vs ss \<Longrightarrow>
     textoDe nt (JArr vs) (joinWith [0x2C] ss)"
| t_obj: "js ''toString'' \<notin> fst ` set kvs \<Longrightarrow> textoDe nt (JObj kvs) (js ''[object Object]'')"

text \<open>
  \<open>JSON.stringify\<close> of an array of strings. Each string is quoted: the short escapes, then
  \<open>\u\<close> and four lower-case hexadecimal digits for the other control characters and for
  a surrogate that is not part of a pair; everything else, pairs included, as it is.
\<close>

definition hexDigit :: "nat \<Rightarrow> jschar" where
  "hexDigit d = js ''0123456789abcdef'' ! d"

definition unicodeEscape :: "jschar \<Rightarrow> jsstring" where
  "unicodeEscape c =
     (let n = unat c
      in [0x5C, 0x75, hexDigit (n div 4096), hexDigit (n div 256 mod 16),
          hexDigit (n div 16 mod 16), hexDigit (n mod 16)])"

definition isHigh :: "jschar \<Rightarrow> bool" where
  "isHigh c \<longleftrightarrow> 0xD800 \<le> c \<and> c \<le> 0xDBFF"

definition isLow :: "jschar \<Rightarrow> bool" where
  "isLow c \<longleftrightarrow> 0xDC00 \<le> c \<and> c \<le> 0xDFFF"

definition escapeUnit :: "jschar \<Rightarrow> jsstring" where
  "escapeUnit c =
     (if c = 0x8 then [0x5C, 0x62]
      else if c = 0x9 then [0x5C, 0x74]
      else if c = 0xA then [0x5C, 0x6E]
      else if c = 0xC then [0x5C, 0x66]
      else if c = 0xD then [0x5C, 0x72]
      else if c = 0x22 then [0x5C, 0x22]
      else if c = 0x5C then [0x5C, 0x5C]
      else if c < 0x20 then unicodeEscape c
      else [c])"

fun quoteBody :: "jsstring \<Rightarrow> jsstring" where
  "quoteBody [] = []"
| "quoteBody [c] = (if isHigh c \<or> isLow c then unicodeEscape c else escapeUnit c)"
| "quoteBody (c # d # cs) =
     (if isHigh c then
        (if isLow d then c # d # quoteBody cs else unicodeEscape c @ quoteBody (d # cs))
      else if isLow c then unicodeEscape c @ quoteBody (d # cs)
      else escapeUnit c @ quoteBody (d # cs))"

definition quoteJSON :: "jsstring \<Rightarrow> jsstring" where
  "quoteJSON s = 0x22 # quoteBody s @ [0x22]"

definition stringify :: "jsstring list \<Rightarrow> jsstring" where
  "stringify xs = 0x5B # joinWith [0x2C] (map quoteJSON xs) @ [0x5D]"

text \<open>\<open>JSON.stringify(xs, null, 2)\<close>.\<close>

definition stringifyPretty :: "jsstring list \<Rightarrow> jsstring" where
  "stringifyPretty xs =
     (if xs = [] then js ''[]''
      else [0x5B, 0xA, 0x20, 0x20] @ joinWith [0x2C, 0xA, 0x20, 0x20] (map quoteJSON xs) @ [0xA, 0x5D])"

text \<open>\<open>String.prototype.split\<close> at a one-character separator.\<close>

fun splitOn :: "jschar \<Rightarrow> jsstring \<Rightarrow> jsstring list" where
  "splitOn d [] = [[]]"
| "splitOn d (c # cs) =
     (if c = d then [] # splitOn d cs
      else (case splitOn d cs of [] \<Rightarrow> [[c]] | t # ts \<Rightarrow> (c # t) # ts))"

section \<open>config.js: the list editor\<close>

text \<open>
  \<open>if (t.startsWith("[") && t.endsWith("]")) t = t.slice(1, -1)\<close>; a text with both has
  at least two characters.
\<close>

definition stripBrackets :: "jsstring \<Rightarrow> jsstring" where
  "stripBrackets t =
     (if t \<noteq> [] \<and> hd t = 0x5B \<and> last t = 0x5D then butlast (tl t) else t)"

text \<open>
  \<open>s.replace(/^['"]|['"]$/g, "")\<close>: a quote character at the start is removed, and a
  quote character at the end of what is left.
\<close>

definition isQuote :: "jschar \<Rightarrow> bool" where
  "isQuote c \<longleftrightarrow> c = 0x27 \<or> c = 0x22"

definition stripQuotes :: "jsstring \<Rightarrow> jsstring" where
  "stripQuotes s =
     (let s1 = (case s of [] \<Rightarrow> [] | c # r \<Rightarrow> if isQuote c then r else s)
      in if s1 \<noteq> [] \<and> isQuote (last s1) then butlast s1 else s1)"

text \<open>
  The \<open>try\<close> block that \<open>parseToArrayLoose\<close> and the submit handler share:
  \<open>JSON.parse\<close>, \<open>Array.isArray\<close>, \<open>parsed.map(String)\<close>. \<open>None\<close> when the block throws or
  the value is not an array.
\<close>

definition parseArrayStrict :: "(jsstring \<Rightarrow> jsstring) \<Rightarrow> jsstring \<Rightarrow> jsstring list option" where
  "parseArrayStrict nt text =
     (case jsonParse text of
        Some (JArr vs) \<Rightarrow> those (map (jsString nt) vs)
      | _ \<Rightarrow> None)"

text \<open>The tokens of the comma-separated reading: \<open>t.split(",").map(s => s.trim())\<close>.\<close>

definition looseTokens :: "jsstring \<Rightarrow> jsstring list" where
  "looseTokens text = map trim (splitOn 0x2C (stripBrackets (trim text)))"

definition parseToArrayLoose :: "(jsstring \<Rightarrow> jsstring) \<Rightarrow> jsstring \<Rightarrow> jsstring list" where
  "parseToArrayLoose nt text =
     (case parseArrayStrict nt text of
        Some arr \<Rightarrow> arr
      | None \<Rightarrow> map stripQuotes (filter (\<lambda>s. s \<noteq> []) (looseTokens text)))"

text \<open>
  The fallback in the order the specification words it: brackets stripped, split on
  commas, each token trimmed, quotes stripped from each token, empty tokens dropped.
\<close>

definition specLooseFallback :: "jsstring \<Rightarrow> jsstring list" where
  "specLooseFallback text = filter (\<lambda>s. s \<noteq> []) (map stripQuotes (looseTokens text))"

text \<open>Whether a text is the JSON of an array whose elements are all strings.\<close>

fun isJStr :: "json \<Rightarrow> bool" where
  "isJStr (JStr s) = True"
| "isJStr v = False"

definition isStringArrayJSON :: "jsstring \<Rightarrow> bool" where
  "isStringArrayJSON text =
     (case jsonParse text of Some (JArr vs) \<Rightarrow> list_all isJStr vs | _ \<Rightarrow> False)"

subsection \<open>The settings page\<close>

text \<open>
  The two hidden fields may be absent; the editor text area, the feedback line and the
  apply button are those of the modal. \<open>currentField\<close> is \<open>null\<close> until the editor is
  opened; the edit buttons name one of the two fields. The modal object exists when
  both its element and Bootstrap do.
\<close>

datatype field = MeasOrder | TargetList

record config_page =
  measOrder :: "jsstring option"
  targetList :: "jsstring option"
  editorValue :: jsstring
  feedbackClass :: jsstring
  feedbackText :: jsstring
  currentField :: "field option"
  hasModal :: bool
  modalOpen :: bool

fun fieldValue :: "field \<Rightarrow> config_page \<Rightarrow> jsstring option" where
  "fieldValue MeasOrder p = measOrder p"
| "fieldValue TargetList p = targetList p"

fun setFieldValue :: "field \<Rightarrow> jsstring \<Rightarrow> config_page \<Rightarrow> config_page" where
  "setFieldValue MeasOrder v p = p\<lparr>measOrder := Some v\<rparr>"
| "setFieldValue TargetList v p = p\<lparr>targetList := Some v\<rparr>"

definition openEditor :: "(jsstring \<Rightarrow> jsstring) \<Rightarrow> field \<Rightarrow> config_page \<Rightarrow> config_page" where
  "openEditor nt f p =
     (case fieldValue f p of
        None \<Rightarrow> p
      | Some raw \<Rightarrow>
          if \<not> hasModal p then p
          else p\<lparr>currentField := Some f,
                 editorValue := stringifyPretty (parseToArrayLoose nt raw),
                 feedbackText := [],
                 feedbackClass := js ''mt-2 small'',
                 modalOpen := True\<rparr>)"

definition msgVacio :: jsstring where
  "msgVacio = js ''Ingres'' @ [0xE1] @ js '' al menos un valor (coma-separado o JSON).''"

definition msgPermitidos :: jsstring where
  "msgPermitidos = js ''Solo se permiten valores: \"spectralon\", \"target\", \"cielo\".''"

definition permitidos :: "jsstring list" where
  "permitidos = [js ''spectralon'', js ''target'', js ''cielo'']"

text \<open>
  \<open>applyEditor\<close>; \<open>lc\<close> is \<open>toLowerCase\<close> of the platform, as in \<open>aplicarColorSelect\<close>.
\<close>

definition applyEditor ::
  "(jsstring \<Rightarrow> jsstring) \<Rightarrow> (jsstring \<Rightarrow> jsstring) \<Rightarrow> config_page \<Rightarrow> config_page" where
  "applyEditor lc nt p =
     (let arr = parseToArrayLoose nt (editorValue p)
      in if arr = [] then
           p\<lparr>feedbackClass := js ''mt-2 small text-danger'', feedbackText := msgVacio\<rparr>
         else if currentField p = Some MeasOrder \<and> \<not> list_all (\<lambda>v. lc v \<in> set permitidos) arr then
           p\<lparr>feedbackClass := js ''mt-2 small text-danger'', feedbackText := msgPermitidos\<rparr>
         else
           (let p1 = (case currentField p of
                        None \<Rightarrow> p
                      | Some f \<Rightarrow>
                          (case fieldValue f p of
                             None \<Rightarrow> p
                           | Some _ \<Rightarrow> setFieldValue f (stringify arr) p))
            in if hasModal p1 then p1\<lparr>modalOpen := False\<rparr> else p1))"

text \<open>The normalization of one hidden field in the \<open>submit\<close> handler of the settings form.\<close>

definition normalizar :: "(jsstring \<Rightarrow> jsstring) \<Rightarrow> jsstring \<Rightarrow> jsstring" where
  "normalizar nt raw =
     (case parseArrayStrict nt raw of
        Some arr \<Rightarrow> stringify arr
      | None \<Rightarrow> stringify (parseToArrayLoose nt raw))"

definition submitConfig :: "(jsstring \<Rightarrow> jsstring) \<Rightarrow> config_page \<Rightarrow> config_page" where
  "submitConfig nt p =
     p\<lparr>measOrder := map_option (normalizar nt) (measOrder p),
       targetList := map_option (normalizar nt) (targetList p)\<rparr>"

section \<open>Sample inputs\<close>

text \<open>The parameter \<open>nt\<close> is instantiated by the identity where no number occurs.\<close>

text \<open>\<open>toLowerCase\<close> on ASCII letters, for the places where a concrete \<open>lc\<close> is needed.\<close>

definition asciiLower :: "jsstring \<Rightarrow> jsstring" where
  "asciiLower s = map (\<lambda>c. if 0x41 \<le> c \<and> c \<le> 0x5A then c + 0x20 else c) s"

text \<open>
  A page as the server renders it: every element present, no type chosen, nothing
  disabled yet, an empty log.
\<close>

definition paginaInicial :: page where
  "paginaInicial =
     \<lparr>tipoSelect = Some \<lparr>sel_value = [], sel_classes = [js ''form-select'']\<rparr>,
      hiddenMedicion = Some [],
      inputArchivo = Some \<lparr>fi_disabled = False, fi_files = []\<rparr>,
      btnProcesar = Some \<lparr>btn_disabled = False, btn_text = lblProcesar\<rparr>,
      formClasses = [],
      nombreSpan = Some [],
      logArea = Some [],
      inputSpectralon = Some [],
      nombreSpectralon = Some \<lparr>lbl_text = lblSpectralonDefault,
                                lbl_classes = [js ''text-muted''], lbl_default = None\<rparr>,
      sessionStorage = [],
      effects = []\<rparr>"

text \<open>
  The same page after the initial-state code and the choice of the type \<open>agua\<close>, and
  then after the choice of the file \<open>sample.zip\<close>.
\<close>

definition paginaConTipo :: page where
  "paginaConTipo = tipoChange asciiLower True (js ''agua'') (estadoInicial asciiLower True paginaInicial)"

definition paginaLista :: page where
  "paginaLista = archivoChange [js ''sample.zip''] paginaConTipo"

definition respuesta :: "nat \<Rightarrow> jsstring option \<Rightarrow> response" where
  "respuesta status header =
     \<lparr>resp_status = status, resp_text = Some (js ''fallo''), resp_blob = Inr (js ''PK''),
      resp_dispo = header\<rparr>"

definition intercambioCon :: "fetched \<Rightarrow> exchange" where
  "intercambioCon f =
     \<lparr>ex_hasToast = True, ex_stamp = (\<lambda>msg. js ''02/11/2026, 10:00:00''), ex_fetch = f,
      ex_download_error = None, ex_sound = SoundOk\<rparr>"

text \<open>
  Four exchanges: a response of status 500, a success with and without the header, and
  a request that never completes.
\<close>

definition exError :: exchange where
  "exError = intercambioCon (Responded (respuesta 500 None))"

definition exOk :: exchange where
  "exOk = intercambioCon (Responded (respuesta 200 (Some (js ''attachment; filename=\"out.zip\"''))))"

definition exSinHeader :: exchange where
  "exSinHeader = intercambioCon (Responded (respuesta 200 None))"

definition exRed :: exchange where
  "exRed = intercambioCon (Rejected (js ''TypeError: Failed to fetch''))"

text \<open>
  No reset statement throws; the storage throws; removing the classes of the type
  selector throws.
\<close>

definition sinFallas :: "reset_stmt \<Rightarrow> jsstring option" where
  "sinFallas s = None"

definition fallaStorage :: "reset_stmt \<Rightarrow> jsstring option" where
  "fallaStorage s = (if s = ClearStorage then Some (js ''SecurityError'') else None)"

definition fallaClases :: "reset_stmt \<Rightarrow> jsstring option" where
  "fallaClases s = (if s = TipoClasses then Some (js ''TypeError'') else None)"

text \<open>A settings page, and the same page with the editor open on a field with a text.\<close>

definition configInicial :: config_page where
  "configInicial =
     \<lparr>measOrder = Some (js ''[\"spectralon\",\"target\"]''),
      targetList = Some (js ''M1, M2''),
      editorValue = [],
      feedbackClass = js ''mt-2 small'',
      feedbackText = [],
      currentField = None,
      hasModal = True,
      modalOpen = False\<rparr>"

definition configEditando :: "field \<Rightarrow> jsstring \<Rightarrow> config_page" where
  "configEditando f txt = configInicial\<lparr>currentField := Some f, editorValue := txt, modalOpen := True\<rparr>"

section \<open>Properties of index.js\<close>

subsection \<open>What the helpers leave alone\<close>

lemma hayTipo_effects [simp]: "hayTipo (p\<lparr>effects := e\<rparr>) = hayTipo p"
  by (simp add: hayTipo_def)

lemma tieneArchivo_effects [simp]: "tieneArchivo (p\<lparr>effects := e\<rparr>) = tieneArchivo p"
  by (simp add: tieneArchivo_def)

lemma appendLog_frame [simp]:
  "effects (appendLog st m p) = effects p" "btnProcesar (appendLog st m p) = btnProcesar p"
  by (simp_all add: appendLog_def Let_def split: option.splits)

lemma setProcesando_present:
  "btnProcesar p = Some b \<Longrightarrow>
   effects (setProcesando on p) = effects p @ [Procesando on] \<and>
   btnProcesar (setProcesando on p) =
     Some (b\<lparr>btn_disabled := on, btn_text := (if on then lblProcesando else lblProcesar)\<rparr>)"
  by (simp add: setProcesando_def)

subsection \<open>Selection guard\<close>

lemma guardOk_habilitar: "guardOk (habilitarCargaSiHayTipo p)"
  by (simp add: guardOk_def habilitarCargaSiHayTipo_def hayTipo_def Let_def split: option.splits)

lemma guardOk_frame:
  "guardOk p \<Longrightarrow> tipoSelect q = tipoSelect p \<Longrightarrow>
   map_option fi_disabled (inputArchivo q) = map_option fi_disabled (inputArchivo p) \<Longrightarrow>
   map_option btn_disabled (btnProcesar q) = map_option btn_disabled (btnProcesar p) \<Longrightarrow> guardOk q"
  by (auto simp: guardOk_def hayTipo_def split: option.splits)

lemma guardOk_avisar: "guardOk p \<Longrightarrow> guardOk (avisar t m p)"
  by (erule guardOk_frame) (simp_all add: avisar_def)
lemma guardOk_removeItem: "guardOk p \<Longrightarrow> guardOk (removeItem k p)"
  by (erule guardOk_frame) (simp_all add: removeItem_def)
lemma guardOk_setItem: "guardOk p \<Longrightarrow> guardOk (setItem k v p)"
  by (erule guardOk_frame) (simp_all add: setItem_def)
lemma guardOk_setOk: "guardOk p \<Longrightarrow> guardOk (setNombreArchivoOk n p)"
  by (erule guardOk_frame) (simp_all add: setNombreArchivoOk_def split: option.splits)
lemma guardOk_setReq: "guardOk p \<Longrightarrow> guardOk (setNombreArchivoRequerido n p)"
  by (erule guardOk_frame) (simp_all add: setNombreArchivoRequerido_def split: option.splits)

lemma guardOk_estadoInicial: "guardOk (estadoInicial lc t p)"
  by (simp add: estadoInicial_def Let_def guardOk_habilitar guardOk_avisar guardOk_removeItem
      guardOk_setOk guardOk_setReq)

lemma guardOk_tipoChangeHandler: "guardOk p \<or> tipoSelect p \<noteq> None \<Longrightarrow> guardOk (tipoChangeHandler lc t p)"
  by (auto simp add: tipoChangeHandler_def Let_def guardOk_habilitar guardOk_avisar split: option.splits)

lemma guardOk_tipoChange: "guardOk p \<Longrightarrow> guardOk (tipoChange lc t v p)"
  unfolding tipoChange_def
  apply (rule guardOk_tipoChangeHandler)
  apply (cases "tipoSelect p")
   apply (rule disjI1)
   apply (erule guardOk_frame; simp)
  apply simp
  done

lemma guardOk_archivoChange: "guardOk p \<Longrightarrow> guardOk (archivoChange fs p)"
  unfolding archivoChange_def
  apply (simp split: option.splits list.splits add: Let_def)
  apply (intro conjI allI impI guardOk_setOk guardOk_setItem guardOk_removeItem)
   apply (erule guardOk_frame; simp)+
  done

text \<open>
  Claim C9, as the code has it. Right after the guard is recomputed, from whatever
  state the page was in, each of the two controls that is present is enabled exactly
  when the measurement type is not empty: after \<open>habilitarCargaSiHayTipo\<close> itself, after
  the initial-state code, and after a change of the type to \<open>v\<close>, which leaves the type
  non-empty exactly when \<open>v\<close> is. A file selection keeps the guard.
\<close>

theorem selection_guard_after_recompute:
  "guardOk (habilitarCargaSiHayTipo p) \<and>
   guardOk (estadoInicial lc hasToast p) \<and>
   (tipoSelect p \<noteq> None \<longrightarrow>
      guardOk (tipoChange lc hasToast v p) \<and> hayTipo (tipoChange lc hasToast v p) = (v \<noteq> [])) \<and>
   (guardOk p \<longrightarrow> guardOk (archivoChange fs p))"
proof -
  have t: "guardOk (tipoChange lc hasToast v p)" if "tipoSelect p \<noteq> None"
    unfolding tipoChange_def
    by (rule guardOk_tipoChangeHandler) (use that in auto)
  have frame: "tipoSelect (avisar a m q) = tipoSelect q"
    "tipoSelect (habilitarCargaSiHayTipo q) = tipoSelect q" for a m q
    by (simp_all add: avisar_def habilitarCargaSiHayTipo_def Let_def)
  have h: "hayTipo (tipoChange lc hasToast v p) = (v \<noteq> [])" if "tipoSelect p \<noteq> None"
    using that
    by (auto simp add: tipoChange_def tipoChangeHandler_def Let_def hayTipo_def frame
          aplicarColorSelect_def split: option.splits)
  show ?thesis
    using guardOk_habilitar guardOk_estadoInicial t h guardOk_archivoChange by blast
qed

theorem selection_guard_after_recompute_witness:
  "tipoSelect paginaInicial \<noteq> None \<and>
   \<not> hayTipo (estadoInicial asciiLower True paginaInicial) \<and>
   map_option fi_disabled (inputArchivo (estadoInicial asciiLower True paginaInicial)) = Some True \<and>
   map_option btn_disabled (btnProcesar (estadoInicial asciiLower True paginaInicial)) = Some True \<and>
   hayTipo paginaConTipo \<and>
   map_option fi_disabled (inputArchivo paginaConTipo) = Some False \<and>
   map_option btn_disabled (btnProcesar paginaConTipo) = Some False \<and>
   hayTipo paginaLista \<and>
   map_option fi_disabled (inputArchivo paginaLista) = Some False \<and>
   map_option btn_disabled (btnProcesar paginaLista) = Some False"
proof -
  let ?p0 = "estadoInicial asciiLower True paginaInicial"
  have s: "tipoSelect paginaInicial \<noteq> None" "tipoSelect ?p0 \<noteq> None" by code_simp+
  have g0: "guardOk ?p0"
    using selection_guard_after_recompute [of paginaInicial asciiLower True] by blast
  have g1: "guardOk paginaConTipo" and h1: "hayTipo paginaConTipo"
    using selection_guard_after_recompute [of ?p0 asciiLower True "js ''agua''"] s(2)
    by (simp_all add: paginaConTipo_def js_def)
  have g2: "guardOk paginaLista"
    using selection_guard_after_recompute [of paginaConTipo asciiLower True "[]" "[js ''sample.zip'']"] g1
    by (simp add: paginaLista_def)
  have h: "\<not> hayTipo ?p0" "hayTipo paginaLista" by code_simp+
  have "inputArchivo ?p0 \<noteq> None" "btnProcesar ?p0 \<noteq> None"
    "inputArchivo paginaConTipo \<noteq> None" "btnProcesar paginaConTipo \<noteq> None"
    "inputArchivo paginaLista \<noteq> None" "btnProcesar paginaLista \<noteq> None"
    by code_simp+
  then show ?thesis
    using s(1) g0 g1 g2 h h1 by (auto simp add: guardOk_def)
qed

text \<open>
  The handler of the data form is the part up to the request followed by the part from
  the arrival of the response.
\<close>

lemma intercambio_recibir: "intercambio ex p = recibir ex (p\<lparr>effects := effects p @ [Fetch]\<rparr>)"
  by (simp add: intercambio_def recibir_def Let_def)

lemma submitDatos_split:
  "hayTipo p \<Longrightarrow> tieneArchivo p \<Longrightarrow> submitDatos ex p = alLlegar ex (enVuelo ex p)"
  by (simp add: submitDatos_def alLlegar_def enVuelo_def intercambio_recibir Let_def)

text \<open>
  Claim C9 as stated, over every state reached after a recomputation, fails. From the
  page with type and file chosen: the reset handler empties the type and leaves both
  controls enabled; while the request is in flight the type is chosen and the submit
  control disabled; and when the type is emptied in flight, the finalization step
  enables the submit control under an empty type.
\<close>

theorem selection_guard_broken_by_other_handlers:
  "alcanzable asciiLower False (limpiarHandler sinFallas paginaLista) \<and>
   \<not> hayTipo (limpiarHandler sinFallas paginaLista) \<and>
   map_option fi_disabled (inputArchivo (limpiarHandler sinFallas paginaLista)) = Some False \<and>
   map_option btn_disabled (btnProcesar (limpiarHandler sinFallas paginaLista)) = Some False \<and>
   alcanzable asciiLower True (enVuelo exOk paginaLista) \<and>
   hayTipo (enVuelo exOk paginaLista) \<and>
   map_option btn_disabled (btnProcesar (enVuelo exOk paginaLista)) = Some True \<and>
   alcanzable asciiLower False (alLlegar exOk (tipoChange asciiLower True [] (enVuelo exOk paginaLista))) \<and>
   \<not> hayTipo (alLlegar exOk (tipoChange asciiLower True [] (enVuelo exOk paginaLista))) \<and>
   map_option btn_disabled
     (btnProcesar (alLlegar exOk (tipoChange asciiLower True [] (enVuelo exOk paginaLista)))) = Some False"
proof -
  have r: "alcanzable asciiLower False paginaLista"
    unfolding paginaLista_def paginaConTipo_def by (intro a_archivo a_tipo a_init)
  have h: "hayTipo paginaLista" "tieneArchivo paginaLista" by code_simp+
  have a1: "alcanzable asciiLower False (limpiarHandler sinFallas paginaLista)"
    by (rule a_limpiar [OF r])
  have a2: "alcanzable asciiLower True (enVuelo exOk paginaLista)"
    by (rule a_envio [OF r h])
  have a3: "alcanzable asciiLower False (alLlegar exOk (tipoChange asciiLower True [] (enVuelo exOk paginaLista)))"
    by (intro a_llegada a_tipo a2)
  have v: "\<not> hayTipo (limpiarHandler sinFallas paginaLista)"
    "map_option fi_disabled (inputArchivo (limpiarHandler sinFallas paginaLista)) = Some False"
    "map_option btn_disabled (btnProcesar (limpiarHandler sinFallas paginaLista)) = Some False"
    "hayTipo (enVuelo exOk paginaLista)"
    "map_option btn_disabled (btnProcesar (enVuelo exOk paginaLista)) = Some True"
    "\<not> hayTipo (alLlegar exOk (tipoChange asciiLower True [] (enVuelo exOk paginaLista)))"
    "map_option btn_disabled
       (btnProcesar (alLlegar exOk (tipoChange asciiLower True [] (enVuelo exOk paginaLista)))) = Some False"
    by code_simp+
  from a1 a2 a3 v show ?thesis by simp
qed

subsection \<open>Submission controller: preconditions\<close>

text \<open>
  Claim C2. With an empty measurement type the handler only cancels the native
  submission and warns: the page is otherwise unchanged and no request is issued, whether
  or not a file is present, so the type is checked first. With a type but no file it
  cancels, warns, and sets the status label to the warning text of
  \<open>setNombreArchivoRequerido\<close>; no request is issued either.
\<close>

theorem submit_blocked_without_type_or_file:
  "(\<not> hayTipo p \<longrightarrow>
      submitDatos ex p =
        p\<lparr>effects := effects p @
            [PreventDefault, if ex_hasToast ex then Toast msgSinTipo else Alert msgSinTipo]\<rparr>) \<and>
   (hayTipo p \<and> \<not> tieneArchivo p \<longrightarrow>
      submitDatos ex p =
        p\<lparr>effects := effects p @
            [PreventDefault, if ex_hasToast ex then Toast msgSinArchivo else Alert msgSinArchivo],
          nombreSpan := map_option (\<lambda>_. spanWarning msgSeleccionarZip) (nombreSpan p)\<rparr>) \<and>
   (\<not> hayTipo p \<or> \<not> tieneArchivo p \<longrightarrow> Fetch \<notin> set (nuevos p (submitDatos ex p)))"
  by (cases "nombreSpan p")
     (auto simp add: submitDatos_def Let_def avisar_def setNombreArchivoRequerido_def nuevos_def)

theorem submit_blocked_without_type_or_file_witness:
  "\<not> hayTipo paginaInicial \<and>
   submitDatos exRed paginaInicial = paginaInicial\<lparr>effects := [PreventDefault, Toast msgSinTipo]\<rparr> \<and>
   hayTipo paginaConTipo \<and> \<not> tieneArchivo paginaConTipo \<and>
   effects (submitDatos exRed paginaConTipo) = [PreventDefault, Toast msgSinArchivo] \<and>
   nombreSpan (submitDatos exRed paginaConTipo) = Some (spanWarning msgSeleccionarZip) \<and>
   Fetch \<notin> set (nuevos paginaConTipo (submitDatos exRed paginaConTipo))"
proof -
  have h: "\<not> hayTipo paginaInicial" "hayTipo paginaConTipo" "\<not> tieneArchivo paginaConTipo"
    "ex_hasToast exRed" "effects paginaInicial = []" "effects paginaConTipo = []"
    "nombreSpan paginaConTipo \<noteq> None"
    by code_simp+
  from submit_blocked_without_type_or_file [of paginaInicial exRed]
       submit_blocked_without_type_or_file [of paginaConTipo exRed] h
  show ?thesis by auto
qed

subsection \<open>Submission controller: release of the submit control\<close>

lemma intercambio_trace:
  assumes "btnProcesar p = Some b"
  shows "\<exists>extra b'. effects (snd (intercambio ex p)) = effects p @ Fetch # extra \<and>
           btnProcesar (snd (intercambio ex p)) = Some b' \<and>
           length (filter (\<lambda>e. e = Procesando False) extra) = (if errorServidor ex then 1 else 0)"
proof (cases "ex_fetch ex")
  case (Rejected err)
  then show ?thesis using assms by (simp add: intercambio_def errorServidor_def)
next
  case (Responded r)
  show ?thesis
  proof (cases "resp_ok r")
    case False
    let ?q = "appendLog (ex_stamp ex) (msgErrorServidor (resp_status r)
                (case resp_text r of None \<Rightarrow> [] | Some t \<Rightarrow> t)) (p\<lparr>effects := effects p @ [Fetch]\<rparr>)"
    have "btnProcesar ?q = Some b" using assms by simp
    from setProcesando_present [OF this, of False]
    show ?thesis using Responded False
      by (simp add: intercambio_def errorServidor_def Let_def)
  next
    case True
    then show ?thesis using Responded assms
      by (cases "resp_blob r"; cases "ex_download_error ex"; cases "ex_sound ex")
         (simp_all add: intercambio_def errorServidor_def Let_def)
  qed
qed

text \<open>
  Claim C1, as the code has it. For every outcome of the exchange (success, non-success
  status, rejected request, a rejected body read, an exception in the download steps or
  in the sound callback) the handler ends with the finalization step, which leaves the
  submit control enabled and its label restored. The control is switched back once,
  except after a non-success status, where the branch switches it back before the
  finalization step does so again: twice.
\<close>

theorem submit_always_releases:
  assumes "btnProcesar p = Some b" and "hayTipo p" and "tieneArchivo p"
  shows "(\<exists>b'. btnProcesar (submitDatos ex p) = Some b' \<and> \<not> btn_disabled b' \<and> btn_text b' = lblProcesar) \<and>
         last (effects (submitDatos ex p)) = Procesando False \<and>
         length (filter (\<lambda>e. e = Procesando False) (nuevos p (submitDatos ex p)))
           = (if errorServidor ex then 2 else 1)"
proof -
  let ?p0 = "p\<lparr>effects := effects p @ [PreventDefault]\<rparr>"
  let ?p1 = "appendLog (ex_stamp ex) msgIniciando (setProcesando True ?p0)"
  obtain thrown p2 where i: "intercambio ex ?p1 = (thrown, p2)" by (cases "intercambio ex ?p1")
  let ?p3 = "case thrown of None \<Rightarrow> p2 | Some err \<Rightarrow> appendLog (ex_stamp ex) (msgErrorRed err) p2"
  have sd: "submitDatos ex p = setProcesando False ?p3"
    using assms(2,3) i by (simp add: submitDatos_def Let_def)
  have b0: "btnProcesar ?p0 = Some b" using assms(1) by simp
  have e1: "effects ?p1 = effects p @ [PreventDefault, Procesando True]"
    and b1: "btnProcesar ?p1 = Some (b\<lparr>btn_disabled := True, btn_text := lblProcesando\<rparr>)"
    using setProcesando_present [OF b0, of True] by simp_all
  from intercambio_trace [OF b1, of ex] i
  obtain extra b' where e2: "effects p2 = effects ?p1 @ Fetch # extra"
    and b2: "btnProcesar p2 = Some b'"
    and c2: "length (filter (\<lambda>e. e = Procesando False) extra) = (if errorServidor ex then 1 else 0)"
    by auto
  have e3: "effects ?p3 = effects p2" and b3: "btnProcesar ?p3 = Some b'"
    using b2 by (simp_all split: option.splits)
  from setProcesando_present [OF b3, of False]
  have e4: "effects (submitDatos ex p) = effects p @ [PreventDefault, Procesando True] @ Fetch # extra @ [Procesando False]"
    and b4: "btnProcesar (submitDatos ex p) = Some (b'\<lparr>btn_disabled := False, btn_text := lblProcesar\<rparr>)"
    using e1 e2 e3 by (simp_all add: sd)
  show ?thesis
    using c2 by (simp add: e4 b4 nuevos_def)
qed

theorem submit_always_releases_witness:
  "hayTipo paginaLista \<and> tieneArchivo paginaLista \<and>
   map_option btn_disabled (btnProcesar (submitDatos exOk paginaLista)) = Some False \<and>
   map_option btn_text (btnProcesar (submitDatos exOk paginaLista)) = Some lblProcesar \<and>
   last (effects (submitDatos exOk paginaLista)) = Procesando False \<and>
   length (filter (\<lambda>e. e = Procesando False) (nuevos paginaLista (submitDatos exOk paginaLista))) = 1 \<and>
   length (filter (\<lambda>e. e = Procesando False) (nuevos paginaLista (submitDatos exRed paginaLista))) = 1 \<and>
   length (filter (\<lambda>e. e = Procesando False) (nuevos paginaLista (submitDatos exError paginaLista))) = 2"
proof -
  have h: "hayTipo paginaLista" "tieneArchivo paginaLista" "btnProcesar paginaLista \<noteq> None"
    "\<not> errorServidor exOk" "\<not> errorServidor exRed" "errorServidor exError"
    by code_simp+
  then obtain b where b: "btnProcesar paginaLista = Some b" by auto
  from submit_always_releases [OF b h(1,2), of exOk]
       submit_always_releases [OF b h(1,2), of exRed]
       submit_always_releases [OF b h(1,2), of exError] h
  show ?thesis by auto
qed

text \<open>
  Claim C1 as stated, with "exactly once", fails after a response of status 500: the
  trace of the handler switches the submit control back twice.
\<close>

theorem submit_restores_twice_on_server_error:
  "hayTipo paginaLista \<and> tieneArchivo paginaLista \<and> errorServidor exError \<and>
   restauraciones paginaLista = 0 \<and>
   restauraciones (submitDatos exError paginaLista) = 2"
  by code_simp

subsection \<open>Submission controller: the name of the download\<close>

lemma prefixCI_iff:
  "prefixCI pat cs = Some r \<longleftrightarrow> (\<exists>kw. cs = kw @ r \<and> map canon kw = map canon pat)"
proof (induction pat cs rule: prefixCI.induct)
  case (1 cs)
  show ?case by auto
next
  case (2 p ps)
  show ?case by auto
next
  case (3 p ps c cs)
  show ?case
  proof (cases "canon c = canon p")
    case True
    have "(\<exists>kw. c # cs = kw @ r \<and> map canon kw = map canon (p # ps))
        \<longleftrightarrow> (\<exists>kw'. cs = kw' @ r \<and> map canon kw' = map canon ps)"
    proof
      assume "\<exists>kw. c # cs = kw @ r \<and> map canon kw = map canon (p # ps)"
      then obtain kw where kw: "c # cs = kw @ r" "map canon kw = map canon (p # ps)" by blast
      then obtain k kw' where "kw = k # kw'" by (cases kw) auto
      with kw show "\<exists>kw'. cs = kw' @ r \<and> map canon kw' = map canon ps" by auto
    next
      assume "\<exists>kw'. cs = kw' @ r \<and> map canon kw' = map canon ps"
      then obtain kw' where "cs = kw' @ r" "map canon kw' = map canon ps" by blast
      with True have "c # cs = (c # kw') @ r \<and> map canon (c # kw') = map canon (p # ps)" by simp
      then show "\<exists>kw. c # cs = kw @ r \<and> map canon kw = map canon (p # ps)" by blast
    qed
    with True 3 show ?thesis by simp
  next
    case False
    have "\<not> (\<exists>kw. c # cs = kw @ r \<and> map canon kw = map canon (p # ps))"
    proof
      assume "\<exists>kw. c # cs = kw @ r \<and> map canon kw = map canon (p # ps)"
      then obtain kw where kw: "c # cs = kw @ r" "map canon kw = map canon (p # ps)" by blast
      then obtain k kw' where "kw = k # kw'" by (cases kw) auto
      with kw False show False by auto
    qed
    with False show ?thesis by simp
  qed
qed

lemma takeWhile_quote:
  "(v = takeWhile (\<lambda>c. c \<noteq> q) r \<and> v \<noteq> [] \<and> length v < length r)
     \<longleftrightarrow> (\<exists>post. r = v @ q # post \<and> v \<noteq> [] \<and> q \<notin> set v)"
proof
  assume a: "v = takeWhile (\<lambda>c. c \<noteq> q) r \<and> v \<noteq> [] \<and> length v < length r"
  then have "dropWhile (\<lambda>c. c \<noteq> q) r \<noteq> []"
    using takeWhile_dropWhile_id [of "\<lambda>c. c \<noteq> q" r] by (metis append_Nil2 less_irrefl)
  then obtain d post where d: "dropWhile (\<lambda>c. c \<noteq> q) r = d # post" by (cases "dropWhile (\<lambda>c. c \<noteq> q) r") auto
  then have "d = q" using hd_dropWhile [of "\<lambda>c. c \<noteq> q" r] by auto
  with d a have "r = v @ q # post" using takeWhile_dropWhile_id [of "\<lambda>c. c \<noteq> q" r] by simp
  moreover have "q \<notin> set v" using a by (auto dest: set_takeWhileD)
  ultimately show "\<exists>post. r = v @ q # post \<and> v \<noteq> [] \<and> q \<notin> set v" using a by blast
next
  assume "\<exists>post. r = v @ q # post \<and> v \<noteq> [] \<and> q \<notin> set v"
  then obtain post where p: "r = v @ q # post" "v \<noteq> []" "q \<notin> set v" by blast
  then have "takeWhile (\<lambda>c. c \<noteq> q) r = v"
    by (auto simp add: takeWhile_tail)
  with p show "v = takeWhile (\<lambda>c. c \<noteq> q) r \<and> v \<noteq> [] \<and> length v < length r" by simp
qed

lemma matchAt_iff: "matchAt cs = Some v \<longleftrightarrow> nombreEn [] v cs"
proof
  assume "matchAt cs = Some v"
  then obtain r where r: "prefixCI (js ''filename=\"'') cs = Some r"
    and v: "v = takeWhile (\<lambda>c. c \<noteq> 0x22) r \<and> v \<noteq> [] \<and> length v < length r"
    by (auto simp: matchAt_def Let_def split: option.splits if_splits)
  from r obtain kw where "cs = kw @ r" "map canon kw = map canon (js ''filename=\"'')"
    unfolding prefixCI_iff by blast
  moreover from v obtain post where "r = v @ 0x22 # post" "v \<noteq> []" "0x22 \<notin> set v"
    unfolding takeWhile_quote by blast
  ultimately show "nombreEn [] v cs"
    unfolding nombreEn_def by auto
next
  assume "nombreEn [] v cs"
  then obtain kw post where c: "cs = kw @ v @ 0x22 # post"
    "map canon kw = map canon (js ''filename=\"'')" "v \<noteq> []" "0x22 \<notin> set v"
    unfolding nombreEn_def by auto
  then have "prefixCI (js ''filename=\"'') cs = Some (v @ 0x22 # post)"
    unfolding prefixCI_iff by blast
  moreover have "v = takeWhile (\<lambda>c. c \<noteq> 0x22) (v @ 0x22 # post) \<and> v \<noteq> [] \<and> length v < length (v @ 0x22 # post)"
    unfolding takeWhile_quote using c by blast
  ultimately show "matchAt cs = Some v"
    by (simp add: matchAt_def Let_def)
qed

lemma nombreEn_split: "nombreEn pre v h \<longleftrightarrow> (\<exists>s. h = pre @ s \<and> matchAt s = Some v)"
  unfolding matchAt_iff nombreEn_def by auto

lemma matchFilename_None: "matchFilename h = None \<Longrightarrow> h = pre @ s \<Longrightarrow> matchAt s = None"
proof (induction h arbitrary: pre)
  case Nil
  then show ?case by (simp add: matchAt_def js_def)
next
  case (Cons c cs)
  from Cons.prems(1) have m: "matchAt (c # cs) = None" "matchFilename cs = None"
    by (auto split: option.splits)
  show ?case
  proof (cases pre)
    case Nil
    with Cons.prems(2) m show ?thesis by simp
  next
    case (Cons a pre')
    with Cons.prems(2) have "cs = pre' @ s" by simp
    from Cons.IH [OF m(2) this] show ?thesis .
  qed
qed

lemma matchFilename_Some:
  "matchFilename h = Some v \<Longrightarrow>
   \<exists>pre s. h = pre @ s \<and> matchAt s = Some v \<and>
     (\<forall>pre' s'. h = pre' @ s' \<and> length pre' < length pre \<longrightarrow> matchAt s' = None)"
proof (induction h)
  case Nil
  then show ?case by simp
next
  case (Cons c cs)
  show ?case
  proof (cases "matchAt (c # cs)")
    case (Some w)
    with Cons.prems have "w = v" by simp
    with Some have "c # cs = [] @ (c # cs) \<and> matchAt (c # cs) = Some v \<and>
      (\<forall>pre' s'. c # cs = pre' @ s' \<and> length pre' < length ([]::jsstring) \<longrightarrow> matchAt s' = None)"
      by simp
    then show ?thesis by blast
  next
    case None
    with Cons.prems have "matchFilename cs = Some v" by simp
    from Cons.IH [OF this] obtain pre s where ps: "cs = pre @ s" "matchAt s = Some v"
      "\<forall>pre' s'. cs = pre' @ s' \<and> length pre' < length pre \<longrightarrow> matchAt s' = None" by blast
    have "\<forall>pre' s'. c # cs = pre' @ s' \<and> length pre' < length (c # pre) \<longrightarrow> matchAt s' = None"
    proof (intro allI impI)
      fix pre' s' assume a: "c # cs = pre' @ s' \<and> length pre' < length (c # pre)"
      show "matchAt s' = None"
      proof (cases pre')
        case Nil
        with a None show ?thesis by simp
      next
        case (Cons x xs)
        with a have "cs = xs @ s' \<and> length xs < length pre" by simp
        with ps(3) show ?thesis by blast
      qed
    qed
    with ps(1,2) have "c # cs = (c # pre) @ s \<and> matchAt s = Some v \<and>
      (\<forall>pre' s'. c # cs = pre' @ s' \<and> length pre' < length (c # pre) \<longrightarrow> matchAt s' = None)"
      by simp
    then show ?thesis by blast
  qed
qed

lemma matchFilename_absent: "(\<forall>pre v. \<not> nombreEn pre v h) \<Longrightarrow> matchFilename h = None"
proof (rule ccontr)
  assume no: "\<forall>pre v. \<not> nombreEn pre v h" and "matchFilename h \<noteq> None"
  then obtain v where "matchFilename h = Some v" by auto
  from matchFilename_Some [OF this] obtain pre s where "h = pre @ s" "matchAt s = Some v" by blast
  then have "nombreEn pre v h" unfolding nombreEn_split by blast
  with no show False by blast
qed

lemma matchFilename_leftmost:
  assumes "nombreEn pre v h" and "\<forall>pre' v'. nombreEn pre' v' h \<longrightarrow> length pre \<le> length pre'"
  shows "matchFilename h = Some v"
proof -
  from assms(1) obtain s where s: "h = pre @ s" "matchAt s = Some v"
    unfolding nombreEn_split by blast
  have "matchFilename h \<noteq> None"
    using matchFilename_None [OF _ s(1)] s(2) by auto
  then obtain w where w: "matchFilename h = Some w" by auto
  from matchFilename_Some [OF this] obtain pre1 s1 where p1: "h = pre1 @ s1" "matchAt s1 = Some w"
    "\<forall>pre' s'. h = pre' @ s' \<and> length pre' < length pre1 \<longrightarrow> matchAt s' = None" by blast
  have "nombreEn pre1 w h" using p1(1,2) unfolding nombreEn_split by blast
  with assms(2) have "length pre \<le> length pre1" by blast
  moreover have "\<not> length pre < length pre1" using p1(3) s by auto
  ultimately have "length pre = length pre1" by simp
  with s(1) p1(1) have "s = s1" by (metis append_eq_append_conv)
  with s(2) p1(2) have "w = v" by simp
  with w show ?thesis by simp
qed

text \<open>
  Claim C7. After a successful exchange whose body could be read and whose download
  steps ran, exactly one download is triggered, with the body as content. When the
  header carries \<open>filename="<value>"\<close>, the name is the value of the leftmost such
  occurrence; when the header is absent or carries no such occurrence, the name is
  \<open>resultados.zip\<close>.
\<close>

theorem download_named_by_header:
  assumes "hayTipo p" and "tieneArchivo p" and "ex_fetch ex = Responded r" and "resp_ok r"
    and "resp_blob r = Inr blob" and "ex_download_error ex = None"
  shows "filter esDescarga (nuevos p (submitDatos ex p)) = [Download (downloadName (resp_dispo r)) blob] \<and>
     (\<forall>h pre v. resp_dispo r = Some h \<and> nombreEn pre v h \<and>
        (\<forall>pre' v'. nombreEn pre' v' h \<longrightarrow> length pre \<le> length pre')
        \<longrightarrow> downloadName (resp_dispo r) = v) \<and>
     (resp_dispo r = None \<or> (\<exists>h. resp_dispo r = Some h \<and> (\<forall>pre v. \<not> nombreEn pre v h))
        \<longrightarrow> downloadName (resp_dispo r) = js ''resultados.zip'')"
proof -
  have d: "filter esDescarga (nuevos p (submitDatos ex p)) = [Download (downloadName (resp_dispo r)) blob]"
    using assms
    by (cases "btnProcesar p"; cases "ex_sound ex")
       (simp_all add: submitDatos_def intercambio_def Let_def nuevos_def setProcesando_def)
  have a: "downloadName (Some h) = v"
    if "nombreEn pre v h" "\<forall>pre' v'. nombreEn pre' v' h \<longrightarrow> length pre \<le> length pre'" for h pre v
    using matchFilename_leftmost [OF that] by (simp add: downloadName_def)
  have b: "downloadName (Some h) = js ''resultados.zip''" if "\<forall>pre v. \<not> nombreEn pre v h" for h
    using matchFilename_absent [OF that] by (simp add: downloadName_def)
  have c: "downloadName None = js ''resultados.zip''"
    by (simp add: downloadName_def)
  show ?thesis
    using d a b c by auto
qed

theorem download_named_by_header_witness:
  "hayTipo paginaLista \<and> tieneArchivo paginaLista \<and>
   filter esDescarga (nuevos paginaLista (submitDatos exOk paginaLista))
     = [Download (js ''out.zip'') (js ''PK'')] \<and>
   filter esDescarga (nuevos paginaLista (submitDatos exSinHeader paginaLista))
     = [Download (js ''resultados.zip'') (js ''PK'')]"
proof -
  let ?h = "js ''attachment; filename=\"out.zip\"''"
  have p: "hayTipo paginaLista" "tieneArchivo paginaLista" by code_simp+
  have ok: "ex_fetch exOk = Responded (respuesta 200 (Some ?h))" "ex_download_error exOk = None"
    "ex_fetch exSinHeader = Responded (respuesta 200 None)" "ex_download_error exSinHeader = None"
    by (simp_all add: exOk_def exSinHeader_def intercambioCon_def)
  have r: "resp_ok (respuesta 200 hd)" "resp_blob (respuesta 200 hd) = Inr (js ''PK'')"
    "resp_dispo (respuesta 200 hd) = hd" for hd
    by (simp_all add: resp_ok_def respuesta_def)
  have occ: "nombreEn (js ''attachment; '') (js ''out.zip'') ?h"
    unfolding nombreEn_def
    by (intro exI [of _ "js ''filename=\"''"] exI [of _ "[]"]) (simp add: js_def)
  have none: "\<forall>n \<in> set [0..<12]. matchAt (drop n ?h) = None"
    by code_simp
  have left: "\<forall>pre' v'. nombreEn pre' v' ?h \<longrightarrow> length (js ''attachment; '') \<le> length pre'"
  proof (intro allI impI)
    fix pre' v' assume "nombreEn pre' v' ?h"
    then obtain s where s: "?h = pre' @ s" "matchAt s = Some v'"
      unfolding nombreEn_split by blast
    then have "drop (length pre') ?h = s" by (metis append_eq_conv_conj)
    with s(2) none have "\<not> length pre' < 12" by auto
    then show "length (js ''attachment; '') \<le> length pre'" by (simp add: js_def)
  qed
  from download_named_by_header [OF p ok(1) r(1) r(2) ok(2)] occ left r(3)
  have a: "filter esDescarga (nuevos paginaLista (submitDatos exOk paginaLista))
     = [Download (js ''out.zip'') (js ''PK'')]"
    by (metis (no_types, lifting))
  from download_named_by_header [OF p ok(3) r(1) r(2) ok(4)] r(3)
  have b: "filter esDescarga (nuevos paginaLista (submitDatos exSinHeader paginaLista))
     = [Download (js ''resultados.zip'') (js ''PK'')]"
    by (metis (no_types, lifting))
  from p a b show ?thesis by simp
qed

subsection \<open>Reset controller\<close>

lemma resetEffect_effects [simp]: "effects (resetEffect s p) = effects p"
  by (cases s) simp_all

lemma fold_resetEffect_effects [simp]: "effects (fold resetEffect ss p) = effects p"
  by (induction ss arbitrary: p) simp_all

lemma resetEffect_skip: "\<not> ejecuta s p \<Longrightarrow> resetEffect s p = p"
  by (cases s) auto

lemma ejecuta_resetEffect [simp]: "ejecuta s (resetEffect t p) = ejecuta s p"
  by (cases s; cases t) (auto split: option.splits)

lemma falla_resetEffect [simp]: "falla faults (resetEffect t p) s = falla faults p s"
  by (simp add: falla_def)

lemma runStmts_eq:
  "runStmts faults ss p =
     (case find (falla faults p) ss of
        None \<Rightarrow> (None, fold resetEffect ss p)
      | Some s \<Rightarrow> (faults s, fold resetEffect (takeWhile (\<lambda>s. \<not> falla faults p s) ss) p))"
proof (induction ss arbitrary: p)
  case Nil
  show ?case by simp
next
  case (Cons s ss)
  show ?case
  proof (cases "falla faults p s")
    case True
    then obtain err where "ejecuta s p" "faults s = Some err"
      by (auto simp add: falla_def)
    with True show ?thesis by simp
  next
    case False
    show ?thesis
    proof (cases "ejecuta s p")
      case True
      with False have "faults s = None" by (simp add: falla_def)
      with True False show ?thesis
        using Cons [of "resetEffect s p"] by (simp split: option.splits)
    next
      case no: False
      with False show ?thesis
        using Cons [of p] by (simp add: resetEffect_skip split: option.splits)
    qed
  qed
qed

text \<open>
  Claim C8, as the code has it. The handler of the clear form never cancels the
  submission of the form, whichever statement throws. The statements before the first
  one that is reached and throws take effect; that statement and all later ones are
  skipped, so a step of several statements can be left half done, and the failure goes
  to the console. When no statement throws, all six steps take effect: storage, type,
  file picker, status label and log are cleared.
\<close>

theorem limpiar_best_effort:
  "limpiarHandler faults p =
     (fold resetEffect (takeWhile (\<lambda>s. \<not> falla faults p s) resetStmts) p)
       \<lparr>effects := effects p @
          (case find (falla faults p) resetStmts of
             None \<Rightarrow> []
           | Some s \<Rightarrow> (case faults s of None \<Rightarrow> [] | Some err \<Rightarrow> [ConsoleWarn err]))\<rparr> \<and>
   PreventDefault \<notin> set (nuevos p (limpiarHandler faults p)) \<and>
   ((\<forall>s. \<not> falla faults p s) \<longrightarrow>
      limpiarHandler faults p = fold resetEffect resetStmts p \<and>
      sessionStorage (limpiarHandler faults p) = [] \<and>
      \<not> hayTipo (limpiarHandler faults p) \<and>
      \<not> tieneArchivo (limpiarHandler faults p) \<and>
      nombreSpan (limpiarHandler faults p) = map_option (\<lambda>_. spanMuted) (nombreSpan p) \<and>
      logArea (limpiarHandler faults p) = map_option (\<lambda>_. []) (logArea p))"
proof -
  let ?done = "fold resetEffect (takeWhile (\<lambda>s. \<not> falla faults p s) resetStmts) p"
  have eq: "limpiarHandler faults p =
     ?done\<lparr>effects := effects p @
          (case find (falla faults p) resetStmts of
             None \<Rightarrow> []
           | Some s \<Rightarrow> (case faults s of None \<Rightarrow> [] | Some err \<Rightarrow> [ConsoleWarn err]))\<rparr>"
  proof (cases "find (falla faults p) resetStmts")
    case None
    then have tw: "takeWhile (\<lambda>s. \<not> falla faults p s) resetStmts = resetStmts"
      by (simp add: find_None_iff)
    have fr: "(fold resetEffect resetStmts p)\<lparr>effects := effects p\<rparr> = fold resetEffect resetStmts p"
      using fold_resetEffect_effects [of resetStmts p, symmetric] by simp
    have "limpiarHandler faults p = fold resetEffect resetStmts p"
      using None by (simp add: limpiarHandler_def runStmts_eq)
    then show ?thesis
      by (simp only: None tw fr option.case append_Nil2)
  next
    case (Some s)
    then have "faults s \<noteq> None" by (auto simp: find_Some_iff falla_def)
    with Some show ?thesis
      by (auto simp add: limpiarHandler_def runStmts_eq)
  qed
  have np: "PreventDefault \<notin> set (nuevos p (limpiarHandler faults p))"
    unfolding eq by (simp add: nuevos_def split: option.splits)
  have all: "limpiarHandler faults p = fold resetEffect resetStmts p" if "\<forall>s. \<not> falla faults p s"
  proof -
    have "find (falla faults p) resetStmts = None"
      using that by (simp add: find_None_iff)
    then show ?thesis by (simp add: limpiarHandler_def runStmts_eq)
  qed
  have expl: "sessionStorage (fold resetEffect resetStmts p) = [] \<and>
      \<not> hayTipo (fold resetEffect resetStmts p) \<and>
      \<not> tieneArchivo (fold resetEffect resetStmts p) \<and>
      nombreSpan (fold resetEffect resetStmts p) = map_option (\<lambda>_. spanMuted) (nombreSpan p) \<and>
      logArea (fold resetEffect resetStmts p) = map_option (\<lambda>_. []) (logArea p)"
    by (cases "tipoSelect p"; cases "inputArchivo p")
       (simp_all add: resetStmts_def hayTipo_def tieneArchivo_def split: option.splits)
  show ?thesis
    using eq np all expl by simp
qed

theorem limpiar_best_effort_witness:
  "hayTipo paginaLista \<and> tieneArchivo paginaLista \<and> sessionStorage paginaLista \<noteq> [] \<and>
   sessionStorage (limpiarHandler sinFallas paginaLista) = [] \<and>
   \<not> hayTipo (limpiarHandler sinFallas paginaLista) \<and>
   \<not> tieneArchivo (limpiarHandler sinFallas paginaLista) \<and>
   nombreSpan (limpiarHandler sinFallas paginaLista) = Some spanMuted \<and>
   PreventDefault \<notin> set (nuevos paginaLista (limpiarHandler sinFallas paginaLista)) \<and>
   PreventDefault \<notin> set (nuevos paginaLista (limpiarHandler fallaClases paginaLista)) \<and>
   sessionStorage (limpiarHandler fallaClases paginaLista) = [] \<and>
   \<not> hayTipo (limpiarHandler fallaClases paginaLista) \<and>
   map_option sel_classes (tipoSelect (limpiarHandler fallaClases paginaLista))
     = map_option sel_classes (tipoSelect paginaLista) \<and>
   tieneArchivo (limpiarHandler fallaClases paginaLista) \<and>
   effects (limpiarHandler fallaClases paginaLista) = [ConsoleWarn (js ''TypeError'')]"
proof -
  have h: "hayTipo paginaLista" "tieneArchivo paginaLista" "sessionStorage paginaLista \<noteq> []"
    "nombreSpan paginaLista \<noteq> None"
    by code_simp+
  have n: "\<forall>s. \<not> falla sinFallas paginaLista s" by (simp add: falla_def sinFallas_def)
  have a: "PreventDefault \<notin> set (nuevos paginaLista (limpiarHandler sinFallas paginaLista))"
    and b: "sessionStorage (limpiarHandler sinFallas paginaLista) = [] \<and>
      \<not> hayTipo (limpiarHandler sinFallas paginaLista) \<and>
      \<not> tieneArchivo (limpiarHandler sinFallas paginaLista) \<and>
      nombreSpan (limpiarHandler sinFallas paginaLista) = map_option (\<lambda>_. spanMuted) (nombreSpan paginaLista)"
    using limpiar_best_effort [of sinFallas paginaLista] n by blast+
  let ?q = "(fold resetEffect (takeWhile (\<lambda>s. \<not> falla fallaClases paginaLista s) resetStmts) paginaLista)
       \<lparr>effects := effects paginaLista @
          (case find (falla fallaClases paginaLista) resetStmts of
             None \<Rightarrow> []
           | Some s \<Rightarrow> (case fallaClases s of None \<Rightarrow> [] | Some err \<Rightarrow> [ConsoleWarn err]))\<rparr>"
  have c: "PreventDefault \<notin> set (nuevos paginaLista (limpiarHandler fallaClases paginaLista))"
    and e: "limpiarHandler fallaClases paginaLista = ?q"
    using limpiar_best_effort [of fallaClases paginaLista] by blast+
  have v: "sessionStorage ?q = [] \<and> \<not> hayTipo ?q \<and>
      map_option sel_classes (tipoSelect ?q) = map_option sel_classes (tipoSelect paginaLista) \<and>
      tieneArchivo ?q \<and> effects ?q = [ConsoleWarn (js ''TypeError'')]"
    by code_simp
  from a b c h v show ?thesis unfolding e by auto
qed

text \<open>
  Claim C8 as stated fails when the storage throws: no other statement throws, yet none
  of them runs. The type, the file and the storage are as before; only the console line
  is new.
\<close>

theorem limpiar_storage_failure_skips_rest:
  "limpiarHandler fallaStorage paginaLista =
     paginaLista\<lparr>effects := [ConsoleWarn (js ''SecurityError'')]\<rparr> \<and>
   fallaStorage TipoValue = None \<and> fallaStorage PickerValue = None \<and>
   fallaStorage LogValue = None \<and>
   hayTipo (limpiarHandler fallaStorage paginaLista) \<and>
   tieneArchivo (limpiarHandler fallaStorage paginaLista) \<and>
   sessionStorage (limpiarHandler fallaStorage paginaLista) \<noteq> []"
  by code_simp

section \<open>Properties of the JSON functions\<close>

subsection \<open>The length test in the parser never fails\<close>

lemma skipWs_le: "length (skipWs cs) \<le> length cs"
  by (simp add: skipWs_def length_dropWhile_le)

lemma skipWs_Cons_less: "skipWs cs = d # r \<Longrightarrow> length r < length cs"
  using skipWs_le [of cs] by simp

lemma parseChars_shortens: "parseChars cs = Some (s, t) \<Longrightarrow> length t < length cs"
proof (induction cs arbitrary: s t rule: parseChars.induct)
  case 1
  then show ?case by simp
next
  case (2 c cs)
  then show ?case
    by (auto split: if_splits list.splits option.splits prod.splits) fastforce+
qed

lemma dropWhile_Cons_less: "dropWhile P xs = y # ys \<Longrightarrow> length ys < length xs"
  using length_dropWhile_le [of P xs] by simp

lemma dropWhile_Cons_less2: "dropWhile P xs = y # z # ys \<Longrightarrow> Suc (length ys) < length xs"
  using length_dropWhile_le [of P xs] by simp

lemma parseNumber_shortens: "parseNumber cs = Some (n, t) \<Longrightarrow> length t < length cs"
  apply (simp add: parseNumber_def Let_def split: list.splits if_splits prod.splits option.splits)
  apply (auto dest!: dropWhile_Cons_less dropWhile_Cons_less2 simp: le_imp_less_Suc length_dropWhile_le less_Suc_eq_le
    intro: le_trans [OF length_dropWhile_le] le_SucI)
  done

lemma parseLiteral_shortens: "parseLiteral cs = Some (v, t) \<Longrightarrow> length t < length cs"
  by (cases cs) (auto simp add: parseLiteral_def js_def split: if_splits)

lemma parse_shortens:
  "(\<forall>v t. parseValue cs = Some (v, t) \<longrightarrow> length t < length cs)"
  "(\<forall>vs t. parseElements cs1 = Some (vs, t) \<longrightarrow> length t < length cs1)"
  "(\<forall>kvs t. parseMembers cs2 = Some (kvs, t) \<longrightarrow> length t < length cs2)"
proof (induction cs and cs1 and cs2 rule: parseValue_parseElements_parseMembers.induct)
  case (1 cs)
  show ?case
  proof (intro allI impI)
    fix v t assume a: "parseValue cs = Some (v, t)"
    then obtain c r where cs: "cs = c # r" by (cases cs) (auto simp: parseValue.simps)
    show "length t < length cs"
      using a "1.IH" unfolding cs
      apply (subst (asm) parseValue.simps)
      apply (auto split: list.splits if_splits option.splits prod.splits
            dest!: skipWs_Cons_less parseChars_shortens parseNumber_shortens parseLiteral_shortens)
       apply (meson less_SucI)+
      done
  qed
next
  case (2 cs)
  show ?case
  proof (intro allI impI)
    fix vs t assume a: "parseElements cs = Some (vs, t)"
    from a obtain v r where pv: "parseValue (skipWs cs) = Some (v, r)"
      by (subst (asm) parseElements.simps) (auto split: option.splits)
    have l1: "length r < length cs"
      using "2.IH"(1) pv skipWs_le [of cs] by fastforce
    from a pv obtain d r' where sk: "skipWs r = d # r'"
      by (subst (asm) parseElements.simps) (auto split: list.splits)
    have l2: "length r' < length r" using skipWs_Cons_less [OF sk] .
    show "length t < length cs"
    proof (cases "d = 0x5D")
      case True
      with a pv sk have "t = r'" by (subst (asm) parseElements.simps) simp
      with l1 l2 show ?thesis by simp
    next
      case False
      with a pv sk have d: "d = 0x2C" and g: "length r' < length cs"
        by (subst (asm) parseElements.simps, simp split: if_splits)+
      from a pv sk False d g obtain vs' where "parseElements r' = Some (vs', t)"
        by (subst (asm) parseElements.simps) (auto split: option.splits)
      moreover have "\<forall>vs t. parseElements r' = Some (vs, t) \<longrightarrow> length t < length r'"
        using "2.IH"(2) [OF pv refl sk False] d g by simp
      ultimately have "length t < length r'" by blast
      with l1 l2 show ?thesis by simp
    qed
  qed
next
  case (3 cs)
  show ?case
  proof (intro allI impI)
    fix kvs t assume a: "parseMembers cs = Some (kvs, t)"
    from a obtain q r where s0: "skipWs cs = q # r" and q: "q = 0x22"
      by (subst (asm) parseMembers.simps) (auto split: list.splits if_splits)
    from a s0 q obtain k r1 where pc: "parseChars r = Some (k, r1)"
      by (subst (asm) parseMembers.simps) (auto split: option.splits)
    from a s0 q pc obtain col r2 where s1: "skipWs r1 = col # r2" and col: "col = 0x3A"
      by (subst (asm) parseMembers.simps) (auto split: list.splits if_splits)
    from a s0 q pc s1 col obtain v r3 where pv: "parseValue (skipWs r2) = Some (v, r3)"
      by (subst (asm) parseMembers.simps) (auto split: option.splits)
    from a s0 q pc s1 col pv obtain d r4 where s3: "skipWs r3 = d # r4"
      by (subst (asm) parseMembers.simps) (auto split: list.splits)
    have "length r3 < length (skipWs r2)"
      using "3.IH"(1) [OF s0 _ pc refl s1 _] q col pv by simp
    then have l: "length r4 < length cs"
      using skipWs_Cons_less [OF s3] skipWs_le [of r2] skipWs_Cons_less [OF s1]
        parseChars_shortens [OF pc] skipWs_Cons_less [OF s0] by simp
    show "length t < length cs"
    proof (cases "d = 0x7D")
      case True
      with a s0 q pc s1 col pv s3 have "t = r4" by (subst (asm) parseMembers.simps) simp
      with l show ?thesis by simp
    next
      case False
      with a s0 q pc s1 col pv s3 have d: "d = 0x2C"
        by (subst (asm) parseMembers.simps) (simp split: if_splits)
      from a s0 q pc s1 col pv s3 False d l obtain kvs' where "parseMembers r4 = Some (kvs', t)"
        by (subst (asm) parseMembers.simps) (auto split: option.splits)
      moreover have "\<forall>kvs t. parseMembers r4 = Some (kvs, t) \<longrightarrow> length t < length r4"
        using "3.IH"(2) [OF s0 _ pc refl s1 _ pv refl s3 False] q col d l by simp
      ultimately have "length t < length r4" by blast
      with l show ?thesis by simp
    qed
  qed
qed

text \<open>
  Hence the parser satisfies the equations of the grammar without the length test.
\<close>

lemma parseElements_unguarded:
  "parseElements cs =
     (case parseValue (skipWs cs) of
        None \<Rightarrow> None
      | Some (v, r) \<Rightarrow>
          (case skipWs r of
             [] \<Rightarrow> None
           | d # r' \<Rightarrow>
               if d = 0x5D then Some ([v], r')
               else if d = 0x2C then
                 (case parseElements r' of
                    None \<Rightarrow> None
                  | Some (vs, t) \<Rightarrow> Some (v # vs, t))
               else None))"
proof -
  have "length r' < length cs" if "parseValue (skipWs cs) = Some (v, r)" "skipWs r = d # r'" for v r d r'
    using parse_shortens(1) [of "skipWs cs"] that skipWs_le [of cs] skipWs_Cons_less [OF that(2)]
    by fastforce
  then show ?thesis
    by (subst parseElements.simps) (auto split: option.splits list.splits)
qed

lemma parseMembers_unguarded:
  "parseMembers cs =
     (case skipWs cs of
        [] \<Rightarrow> None
      | q # r \<Rightarrow>
          if q \<noteq> 0x22 then None
          else
            (case parseChars r of
               None \<Rightarrow> None
             | Some (k, r1) \<Rightarrow>
                 (case skipWs r1 of
                    [] \<Rightarrow> None
                  | col # r2 \<Rightarrow>
                      if col \<noteq> 0x3A then None
                      else
                        (case parseValue (skipWs r2) of
                           None \<Rightarrow> None
                         | Some (v, r3) \<Rightarrow>
                             (case skipWs r3 of
                                [] \<Rightarrow> None
                              | d # r4 \<Rightarrow>
                                  if d = 0x7D then Some ([(k, v)], r4)
                                  else if d = 0x2C then
                                    (case parseMembers r4 of
                                       None \<Rightarrow> None
                                     | Some (kvs, t) \<Rightarrow> Some ((k, v) # kvs, t))
                                  else None)))))"
proof -
  have "length r4 < length cs"
    if "skipWs cs = q # r" "parseChars r = Some (k, r1)" "skipWs r1 = col # r2"
      "parseValue (skipWs r2) = Some (v, r3)" "skipWs r3 = d # r4" for q r k r1 col r2 v r3 d r4
    using parse_shortens(1) [of "skipWs r2"] that(4) skipWs_le [of r2]
      skipWs_Cons_less [OF that(1)] parseChars_shortens [OF that(2)]
      skipWs_Cons_less [OF that(3)] skipWs_Cons_less [OF that(5)]
    by fastforce
  then show ?thesis
    by (subst parseMembers.simps) (auto split: option.splits list.splits)
qed

subsection \<open>Parsing what \<open>JSON.stringify\<close> wrote\<close>

lemma hexVal_hexDigit: "d < 16 \<Longrightarrow> hexVal (hexDigit d) = Some d"
proof -
  have "\<forall>d \<in> set [0..<16]. hexVal (hexDigit d) = Some d"
    by code_simp
  moreover assume "d < 16"
  ultimately show ?thesis by simp
qed

lemma nibbles:
  "((n div 4096 * 16 + n div 256 mod 16) * 16 + n div 16 mod 16) * 16 + n mod 16 = (n::nat)"
proof -
  have "n div 4096 = n div 256 div 16" "n div 256 = n div 16 div 16"
    by (simp_all add: div_mult2_eq [symmetric])
  then have a: "n div 4096 * 16 + n div 256 mod 16 = n div 256"
    and b: "n div 256 * 16 + n div 16 mod 16 = n div 16"
    by simp_all
  show ?thesis
    unfolding a b by simp
qed

lemma parseChars_unicodeEscape:
  "parseChars (unicodeEscape c @ rest) =
     (case parseChars rest of None \<Rightarrow> None | Some (s, t) \<Rightarrow> Some (c # s, t))"
proof -
  have n: "unat c < 65536" using unsigned_less [of c] by simp
  then have d: "unat c div 4096 < 16" "unat c div 256 mod 16 < 16" "unat c div 16 mod 16 < 16" "unat c mod 16 < 16"
    by simp_all
  have "of_nat (((unat c div 4096 * 16 + unat c div 256 mod 16) * 16 + unat c div 16 mod 16) * 16 + unat c mod 16) = c"
    unfolding nibbles by simp
  then show ?thesis
    using d by (simp add: unicodeEscape_def Let_def hexVal_hexDigit split: option.splits)
qed

lemma parseChars_raw:
  "c \<noteq> 0x22 \<Longrightarrow> c \<noteq> 0x5C \<Longrightarrow> \<not> c < 0x20 \<Longrightarrow>
   parseChars (c # rest) = (case parseChars rest of None \<Rightarrow> None | Some (s, t) \<Rightarrow> Some (c # s, t))"
  by simp

lemma parseChars_escapeUnit:
  "parseChars (escapeUnit c @ rest) =
     (case parseChars rest of None \<Rightarrow> None | Some (s, t) \<Rightarrow> Some (c # s, t))"
  by (auto simp add: escapeUnit_def parseChars_unicodeEscape unescape_def split: option.splits)

lemma surrogate_raw:
  "isHigh c \<or> isLow c \<Longrightarrow> c \<noteq> 0x22 \<and> c \<noteq> 0x5C \<and> \<not> c < 0x20"
  by (auto simp: isHigh_def isLow_def word_le_nat_alt word_less_nat_alt)

lemma parseChars_quoteBody: "parseChars (quoteBody s @ 0x22 # rest) = Some (s, rest)"
proof (induction s rule: quoteBody.induct)
  case 1
  show ?case by simp
next
  case (2 c)
  show ?case by (simp add: parseChars_unicodeEscape parseChars_escapeUnit)
next
  case (3 c d cs)
  show ?case
  proof (cases "isHigh c")
    case True
    show ?thesis
    proof (cases "isLow d")
      case low: True
      have "parseChars (c # d # quoteBody cs @ 0x22 # rest) = Some (c # d # cs, rest)"
        using 3(1) [OF True low] surrogate_raw [of c] surrogate_raw [of d] True low
        by (simp del: parseChars.simps add: parseChars_raw)
      with True low show ?thesis by simp
    next
      case False
      with True 3(2) show ?thesis
        by (simp add: parseChars_unicodeEscape del: parseChars.simps)
    qed
  next
    case False
    with 3(3,4) show ?thesis
      by (cases "isLow c")
         (simp_all add: parseChars_unicodeEscape parseChars_escapeUnit del: parseChars.simps)
  qed
qed

lemma parseValue_quoteJSON: "parseValue (quoteJSON s @ rest) = Some (JStr s, rest)"
  by (simp add: parseValue.simps quoteJSON_def parseChars_quoteBody)

lemma skipWs_quoteJSON: "skipWs (quoteJSON s @ rest) = quoteJSON s @ rest"
  by (simp add: skipWs_def quoteJSON_def isWs_def)

lemma skipWs_ws: "list_all isWs w \<Longrightarrow> \<not> isWs c \<Longrightarrow> skipWs (w @ c # rest) = c # rest"
  by (induction w) (simp_all add: skipWs_def)

lemma parseElements_last:
  assumes "list_all isWs w1" "list_all isWs w2"
  shows "parseElements (w1 @ quoteJSON x @ w2 @ 0x5D # rest) = Some ([JStr x], rest)"
proof -
  have "skipWs (w1 @ quoteJSON x @ w2 @ 0x5D # rest) = quoteJSON x @ w2 @ 0x5D # rest"
    using skipWs_ws [OF assms(1), of "0x22" "quoteBody x @ 0x22 # w2 @ 0x5D # rest"]
    by (simp add: quoteJSON_def isWs_def)
  moreover have "skipWs (w2 @ 0x5D # rest) = 0x5D # rest"
    using skipWs_ws [OF assms(2), of "0x5D" rest] by (simp add: isWs_def)
  ultimately show ?thesis
    by (simp add: parseElements.simps [of "w1 @ quoteJSON x @ w2 @ 0x5D # rest"] parseValue_quoteJSON)
qed

lemma parseElements_step:
  assumes "list_all isWs w1" and "parseElements tail = Some (vs, rest)"
  shows "parseElements (w1 @ quoteJSON x @ 0x2C # tail) = Some (JStr x # vs, rest)"
proof -
  let ?cs = "w1 @ quoteJSON x @ 0x2C # tail"
  have a: "skipWs ?cs = quoteJSON x @ 0x2C # tail"
    using skipWs_ws [OF assms(1), of "0x22" "quoteBody x @ 0x22 # 0x2C # tail"]
    by (simp add: quoteJSON_def isWs_def)
  have b: "skipWs (0x2C # tail) = 0x2C # tail"
    by (simp add: skipWs_def isWs_def)
  have d: "length tail < length ?cs"
    by (simp add: quoteJSON_def)
  show ?thesis
    by (subst parseElements.simps) (simp add: a parseValue_quoteJSON b assms(2) d)
qed

lemma parseElements_strings:
  "list_all isWs w1 \<Longrightarrow> list_all isWs w \<Longrightarrow> list_all isWs w2 \<Longrightarrow>
   parseElements (w1 @ joinWith (0x2C # w) (map quoteJSON (x # xs)) @ w2 @ 0x5D # rest)
     = Some (map JStr (x # xs), rest)"
proof (induction xs arbitrary: x w1)
  case Nil
  then show ?case by (simp add: parseElements_last)
next
  case (Cons y ys)
  have "parseElements (w @ joinWith (0x2C # w) (map quoteJSON (y # ys)) @ w2 @ 0x5D # rest)
          = Some (map JStr (y # ys), rest)"
    using Cons.IH [OF Cons.prems(2) Cons.prems(2) Cons.prems(3)] .
  from parseElements_step [OF Cons.prems(1) this, of x]
  show ?case by simp
qed

lemma parseValue_array:
  assumes "list_all isWs w1" "list_all isWs w" "list_all isWs w2" "xs \<noteq> []"
  shows "parseValue (0x5B # w1 @ joinWith (0x2C # w) (map quoteJSON xs) @ w2 @ 0x5D # rest)
     = Some (JArr (map JStr xs), rest)"
proof -
  obtain y ys where xs: "xs = y # ys" using assms(4) by (cases xs) auto
  let ?r = "w1 @ joinWith (0x2C # w) (map quoteJSON xs) @ w2 @ 0x5D # rest"
  have "\<exists>t. joinWith (0x2C # w) (map quoteJSON xs) = 0x22 # t"
    unfolding xs by (cases ys) (simp_all add: quoteJSON_def)
  then obtain t where t: "joinWith (0x2C # w) (map quoteJSON xs) = 0x22 # t" ..
  have "skipWs ?r = 0x22 # t @ w2 @ 0x5D # rest"
    using skipWs_ws [OF assms(1), of "0x22" "t @ w2 @ 0x5D # rest"] by (simp add: t isWs_def)
  moreover have "parseElements ?r = Some (map JStr xs, rest)"
    unfolding xs by (rule parseElements_strings [OF assms(1-3)])
  ultimately show ?thesis
    by (simp add: parseValue.simps)
qed

lemma jsonParse_stringify: "jsonParse (stringify xs) = Some (JArr (map JStr xs))"
proof (cases "xs = []")
  case True
  then show ?thesis
    by (simp add: jsonParse_def stringify_def skipWs_def isWs_def parseValue.simps)
next
  case False
  have "parseValue (stringify xs) = Some (JArr (map JStr xs), [])"
    using parseValue_array [of "[]" "[]" "[]" xs "[]"] False by (simp add: stringify_def)
  then show ?thesis
    by (simp add: jsonParse_def stringify_def skipWs_def isWs_def)
qed

lemma jsonParse_stringifyPretty: "jsonParse (stringifyPretty xs) = Some (JArr (map JStr xs))"
proof (cases "xs = []")
  case True
  then show ?thesis
    by (simp add: jsonParse_def stringifyPretty_def js_def skipWs_def isWs_def parseValue.simps)
next
  case False
  have "parseValue (stringifyPretty xs) = Some (JArr (map JStr xs), [])"
    using parseValue_array [of "[0xA, 0x20, 0x20]" "[0xA, 0x20, 0x20]" "[0xA]" xs "[]"] False
    by (simp add: stringifyPretty_def isWs_def)
  then show ?thesis
    using False by (simp add: jsonParse_def stringifyPretty_def skipWs_def isWs_def)
qed

lemma those_jsString_strings: "those (map (jsString nt \<circ> JStr) xs) = Some xs"
  by (induction xs) simp_all

lemma parseArrayStrict_stringify: "parseArrayStrict nt (stringify xs) = Some xs"
  by (simp add: parseArrayStrict_def jsonParse_stringify those_jsString_strings)

lemma parseArrayStrict_stringifyPretty: "parseArrayStrict nt (stringifyPretty xs) = Some xs"
  by (simp add: parseArrayStrict_def jsonParse_stringifyPretty those_jsString_strings)

lemma isStringArrayJSON_stringify: "isStringArrayJSON (stringify arr)"
  by (simp add: isStringArrayJSON_def jsonParse_stringify list_all_iff)

section \<open>Properties of config.js\<close>

text \<open>
  Claim C5. The permissive parse of the text \<open>["a","b","c"]\<close> and of the text \<open>a, b, c\<close>
  is the same sequence of the three strings \<open>a\<close>, \<open>b\<close>, \<open>c\<close>.
\<close>

theorem loose_parse_examples:
  "parseToArrayLoose nt (js ''[\"a\",\"b\",\"c\"]'') = [js ''a'', js ''b'', js ''c''] \<and>
   parseToArrayLoose nt (js ''a, b, c'') = [js ''a'', js ''b'', js ''c'']"
  by code_simp

theorem loose_parse_examples_witness:
  "parseToArrayLoose id (js ''[\"a\",\"b\",\"c\"]'') = parseToArrayLoose id (js ''a, b, c'') \<and>
   parseToArrayLoose id (js ''a, b, c'') = [js ''a'', js ''b'', js ''c'']"
  using loose_parse_examples [of id] by simp

lemma stripQuotes_Nil_iff:
  "stripQuotes s = [] \<longleftrightarrow> s = [] \<or> (list_all isQuote s \<and> length s \<le> 2)"
proof (cases s)
  case Nil
  then show ?thesis by (simp add: stripQuotes_def)
next
  case (Cons c r)
  show ?thesis
  proof (cases r rule: rev_cases)
    case Nil
    with Cons show ?thesis by (simp add: stripQuotes_def)
  next
    case (snoc r' d)
    with Cons show ?thesis
      by (cases r') (auto simp add: stripQuotes_def Let_def split: if_splits)
  qed
qed

lemma jsonParse_None_strict: "jsonParse text = None \<Longrightarrow> parseArrayStrict nt text = None"
  by (simp add: parseArrayStrict_def)

text \<open>
  Claim C6, as the code has it. When the strict parse yields no array of texts (the text
  is not JSON, is JSON but not an array, or is an array with an element whose conversion
  to text throws), the permissive parse is: trim the text, strip one pair of enclosing
  brackets, split on commas, trim each token, drop the empty tokens, and then strip one
  leading and one trailing quote character from each token that is left. A token of one
  or two quote characters therefore yields an empty string, and these are the only empty
  strings of the result; without them the result is the sequence of the steps in the
  order strip quotes, then drop empty tokens.
\<close>

theorem loose_fallback_steps:
  assumes "parseArrayStrict nt text = None"
  shows "parseToArrayLoose nt text =
           map stripQuotes
             (filter (\<lambda>s. s \<noteq> [])
               (map trim (splitOn 0x2C (stripBrackets (trim text))))) \<and>
         filter (\<lambda>s. s \<noteq> []) (parseToArrayLoose nt text) = specLooseFallback text \<and>
         ([] \<in> set (parseToArrayLoose nt text) \<longleftrightarrow>
            (\<exists>tok \<in> set (looseTokens text). tok \<noteq> [] \<and> list_all isQuote tok \<and> length tok \<le> 2))"
proof -
  have p: "parseToArrayLoose nt text = map stripQuotes (filter (\<lambda>s. s \<noteq> []) (looseTokens text))"
    using assms by (simp add: parseToArrayLoose_def)
  have s0: "stripQuotes [] = []" by (simp add: stripQuotes_def)
  have "filter (\<lambda>s. s \<noteq> []) (map stripQuotes (filter (\<lambda>s. s \<noteq> []) ts))
          = filter (\<lambda>s. s \<noteq> []) (map stripQuotes ts)" for ts
    by (induction ts) (simp_all add: s0)
  then have f: "filter (\<lambda>s. s \<noteq> []) (parseToArrayLoose nt text) = specLooseFallback text"
    by (simp add: p specLooseFallback_def)
  have e: "[] \<in> set (parseToArrayLoose nt text) \<longleftrightarrow>
            (\<exists>tok \<in> set (looseTokens text). tok \<noteq> [] \<and> list_all isQuote tok \<and> length tok \<le> 2)"
  proof -
    have "[] \<in> stripQuotes ` A \<longleftrightarrow> (\<exists>x\<in>A. stripQuotes x = [])" for A
      by force
    then show ?thesis
      unfolding p by (auto simp add: stripQuotes_Nil_iff)
  qed
  show ?thesis
    using p f e by (simp add: looseTokens_def)
qed

theorem loose_fallback_steps_witness:
  "jsonParse (js ''[x, 'y',, \"z\" ]'') = None \<and>
   parseToArrayLoose id (js ''[x, 'y',, \"z\" ]'') = [js ''x'', js ''y'', js ''z''] \<and>
   specLooseFallback (js ''[x, 'y',, \"z\" ]'') = [js ''x'', js ''y'', js ''z''] \<and>
   [] \<notin> set (parseToArrayLoose id (js ''[x, 'y',, \"z\" ]'')) \<and>
   jsonParse (js ''\"a,\"'') = Some (JStr (js ''a,'')) \<and>
   parseToArrayLoose id (js ''\"a,\"'') = [js ''a'', []] \<and>
   specLooseFallback (js ''\"a,\"'') = [js ''a''] \<and>
   jsonParse (js ''null'') = Some JNull \<and>
   parseToArrayLoose id (js ''null'') = [js ''null'']"
proof -
  let ?t = "js ''[x, 'y',, \"z\" ]''"
  let ?u = "js ''\"a,\"''"
  let ?n = "js ''null''"
  have j: "jsonParse ?t = None" "jsonParse ?u = Some (JStr (js ''a,''))" "jsonParse ?n = Some JNull"
    by code_simp+
  have h: "parseArrayStrict id ?t = None" "parseArrayStrict id ?u = None" "parseArrayStrict id ?n = None"
    by code_simp+
  have v: "map stripQuotes (filter (\<lambda>s. s \<noteq> []) (map trim (splitOn 0x2C (stripBrackets (trim ?t)))))
             = [js ''x'', js ''y'', js ''z'']"
    "map stripQuotes (filter (\<lambda>s. s \<noteq> []) (map trim (splitOn 0x2C (stripBrackets (trim ?u)))))
             = [js ''a'', []]"
    "map stripQuotes (filter (\<lambda>s. s \<noteq> []) (map trim (splitOn 0x2C (stripBrackets (trim ?n)))))
             = [js ''null'']"
    by code_simp+
  note tt = loose_fallback_steps [OF h(1)]
  note tu = loose_fallback_steps [OF h(2)]
  note tn = loose_fallback_steps [OF h(3)]
  have a: "parseToArrayLoose id ?t = [js ''x'', js ''y'', js ''z'']"
    using tt [THEN conjunct1] v(1) by (simp only:)
  have au: "parseToArrayLoose id ?u = [js ''a'', []]"
    using tu [THEN conjunct1] v(2) by (simp only:)
  have an: "parseToArrayLoose id ?n = [js ''null'']"
    using tn [THEN conjunct1] v(3) by (simp only:)
  have b: "filter (\<lambda>s. s \<noteq> []) (parseToArrayLoose id ?t) = specLooseFallback ?t"
    using tt [THEN conjunct2, THEN conjunct1] .
  have bu: "filter (\<lambda>s. s \<noteq> []) (parseToArrayLoose id ?u) = specLooseFallback ?u"
    using tu [THEN conjunct2, THEN conjunct1] .
  have c: "filter (\<lambda>s. s \<noteq> []) [js ''x'', js ''y'', js ''z''] = [js ''x'', js ''y'', js ''z'']"
    "[] \<notin> set [js ''x'', js ''y'', js ''z'']"
    "filter (\<lambda>s. s \<noteq> []) [js ''a'', []] = [js ''a'']"
    by (simp_all add: js_def)
  have d: "specLooseFallback ?t = [js ''x'', js ''y'', js ''z'']"
    using b c(1) by (simp only: a)
  have du: "specLooseFallback ?u = [js ''a'']"
    using bu c(3) by (simp only: au)
  show ?thesis
    using j a d c(2) au du an by (simp only: simp_thms)
qed

text \<open>
  Claim C6 as stated fails on the text \<open>a,""\<close>: the strict parse fails, the permissive
  parse keeps an empty string as second element, and the steps in the order of the
  claim give one element only.
\<close>

theorem loose_fallback_keeps_empty_string:
  "jsonParse (js ''a,\"\"'') = None \<and>
   parseToArrayLoose id (js ''a,\"\"'') = [js ''a'', []] \<and>
   specLooseFallback (js ''a,\"\"'') = [js ''a'']"
  by code_simp

text \<open>
  Claim C4. When the permissive parse of the editor text is empty, \<open>applyEditor\<close> only
  sets the error feedback. When the editor is on the measurement order and some parsed
  element, lower-cased, is none of \<open>spectralon\<close>, \<open>target\<close>, \<open>cielo\<close>, it only sets the
  feedback that names these three. In both cases the two hidden fields, the editor text
  and the state of the modal are as before: the editor stays open.
\<close>

theorem apply_rejections:
  "(parseToArrayLoose nt (editorValue p) = [] \<longrightarrow>
      applyEditor lc nt p =
        p\<lparr>feedbackClass := js ''mt-2 small text-danger'', feedbackText := msgVacio\<rparr>) \<and>
   (currentField p = Some MeasOrder \<and>
    (\<exists>v \<in> set (parseToArrayLoose nt (editorValue p)).
       lc v \<notin> {js ''spectralon'', js ''target'', js ''cielo''}) \<longrightarrow>
      applyEditor lc nt p =
        p\<lparr>feedbackClass := js ''mt-2 small text-danger'', feedbackText := msgPermitidos\<rparr>) \<and>
   (parseToArrayLoose nt (editorValue p) = [] \<or>
    (currentField p = Some MeasOrder \<and>
     (\<exists>v \<in> set (parseToArrayLoose nt (editorValue p)).
        lc v \<notin> {js ''spectralon'', js ''target'', js ''cielo''})) \<longrightarrow>
      measOrder (applyEditor lc nt p) = measOrder p \<and>
      targetList (applyEditor lc nt p) = targetList p \<and>
      modalOpen (applyEditor lc nt p) = modalOpen p \<and>
      editorValue (applyEditor lc nt p) = editorValue p \<and>
      feedbackClass (applyEditor lc nt p) = js ''mt-2 small text-danger'')"
  by (auto simp add: applyEditor_def Let_def permitidos_def list_all_iff)

theorem apply_rejections_witness:
  "parseToArrayLoose id (js ''[]'') = [] \<and>
   applyEditor asciiLower id (configEditando TargetList (js ''[]''))
     = (configEditando TargetList (js ''[]''))
         \<lparr>feedbackClass := js ''mt-2 small text-danger'', feedbackText := msgVacio\<rparr> \<and>
   parseToArrayLoose id (js ''   '') = [] \<and>
   feedbackText (applyEditor asciiLower id (configEditando MeasOrder (js ''   ''))) = msgVacio \<and>
   parseToArrayLoose id (js ''[\"spectralon\",\"bogus\"]'') = [js ''spectralon'', js ''bogus''] \<and>
   feedbackText (applyEditor asciiLower id (configEditando MeasOrder (js ''[\"spectralon\",\"bogus\"]'')))
     = msgPermitidos \<and>
   measOrder (applyEditor asciiLower id (configEditando MeasOrder (js ''[\"spectralon\",\"bogus\"]'')))
     = measOrder configInicial \<and>
   modalOpen (applyEditor asciiLower id (configEditando MeasOrder (js ''[\"spectralon\",\"bogus\"]'')))"
proof -
  let ?p1 = "configEditando TargetList (js ''[]'')"
  let ?p2 = "configEditando MeasOrder (js ''   '')"
  let ?p3 = "configEditando MeasOrder (js ''[\"spectralon\",\"bogus\"]'')"
  have e: "editorValue (configEditando f t) = t" "currentField (configEditando f t) = Some f"
    "measOrder (configEditando f t) = measOrder configInicial" "modalOpen (configEditando f t)" for f t
    by (simp_all add: configEditando_def)
  have v: "parseToArrayLoose id (js ''[]'') = []" "parseToArrayLoose id (js ''   '') = []"
    "parseToArrayLoose id (js ''[\"spectralon\",\"bogus\"]'') = [js ''spectralon'', js ''bogus'']"
    by code_simp+
  have b: "asciiLower (js ''bogus'') \<notin> {js ''spectralon'', js ''target'', js ''cielo''}"
    by code_simp
  have a1: "applyEditor asciiLower id ?p1 = ?p1\<lparr>feedbackClass := js ''mt-2 small text-danger'', feedbackText := msgVacio\<rparr>"
    using apply_rejections [of id ?p1 asciiLower, THEN conjunct1] v(1) e(1) by simp
  have a2: "applyEditor asciiLower id ?p2 = ?p2\<lparr>feedbackClass := js ''mt-2 small text-danger'', feedbackText := msgVacio\<rparr>"
    using apply_rejections [of id ?p2 asciiLower, THEN conjunct1] v(2) e(1) by simp
  have "\<exists>x \<in> set (parseToArrayLoose id (editorValue ?p3)). asciiLower x \<notin> {js ''spectralon'', js ''target'', js ''cielo''}"
    using v(3) b e(1) by simp
  then have a3: "applyEditor asciiLower id ?p3 = ?p3\<lparr>feedbackClass := js ''mt-2 small text-danger'', feedbackText := msgPermitidos\<rparr>"
    using apply_rejections [of id ?p3 asciiLower, THEN conjunct2, THEN conjunct1] e(2) by blast
  show ?thesis
    using v a1 a2 a3 e by simp
qed

text \<open>
  The conversion to text of the model is the relation \<open>textoDe\<close>.
\<close>

lemma those_map_iff:
  "those (map f vs) = Some ss \<longleftrightarrow> list_all2 (\<lambda>v s. f v = Some s) vs ss"
proof (induction vs arbitrary: ss)
  case Nil
  show ?case by auto
next
  case (Cons v vs)
  show ?case
    by (cases ss) (auto simp add: Cons split: option.splits)
qed

lemma jsString_textoDe: "jsString nt v = Some s \<Longrightarrow> textoDe nt v s"
proof (induction nt v arbitrary: s rule: jsString.induct)
  case (5 nt vs)
  from "5.prems" obtain ss
    where ss: "those (map (\<lambda>v. if v = JNull then Some [] else jsString nt v) vs) = Some ss"
      and s: "s = joinWith [0x2C] ss"
    by auto
  from ss have "list_all2 (\<lambda>v s. (if v = JNull then Some [] else jsString nt v) = Some s) vs ss"
    by (simp add: those_map_iff)
  then have "list_all2 (\<lambda>v s. (v = JNull \<and> s = []) \<or> (v \<noteq> JNull \<and> textoDe nt v s)) vs ss"
    by (rule list.rel_mono_strong) (auto split: if_splits intro: "5.IH")
  then show ?case unfolding s by (rule t_arr)
qed (auto intro: textoDe.intros split: if_splits)

lemma textoDe_jsString: "textoDe nt v s \<Longrightarrow> jsString nt v = Some s"
proof (induction rule: textoDe.induct)
  case (t_arr vs ss)
  then have "list_all2 (\<lambda>v s. (if v = JNull then Some [] else jsString nt v) = Some s) vs ss"
    by (rule list.rel_mono_strong) auto
  then have "those (map (\<lambda>v. if v = JNull then Some [] else jsString nt v) vs) = Some ss"
    by (simp add: those_map_iff)
  then show ?case by simp
qed simp_all

lemma those_jsString_iff:
  "those (map (jsString nt) vs) = Some arr \<longleftrightarrow> list_all2 (textoDe nt) vs arr"
proof -
  have "(\<lambda>v s. jsString nt v = Some s) = textoDe nt"
    by (intro ext) (auto intro: jsString_textoDe textoDe_jsString)
  then show ?thesis by (simp add: those_map_iff)
qed

lemma those_jsString_None_iff:
  "those (map (jsString nt) vs) = None \<longleftrightarrow> (\<forall>arr. \<not> list_all2 (textoDe nt) vs arr)"
  using those_jsString_iff [of nt vs] by (cases "those (map (jsString nt) vs)") auto

text \<open>
  Claim C3, as the code has it. The submit handler of the settings form replaces each
  of the two hidden fields by its normalization. A value that parses as a JSON array
  whose elements all have a text becomes the serialization of these texts. A value that
  is not a JSON array, and an array with an element that has no text because its
  conversion throws, becomes the serialization of its permissive parse. In every case
  the new value is the JSON text of an array of strings.
\<close>

theorem submit_normalizes_lists:
  "measOrder (submitConfig nt p) = map_option (normalizar nt) (measOrder p) \<and>
   targetList (submitConfig nt p) = map_option (normalizar nt) (targetList p) \<and>
   (\<forall>vs arr. jsonParse raw = Some (JArr vs) \<and> list_all2 (textoDe nt) vs arr
      \<longrightarrow> normalizar nt raw = stringify arr) \<and>
   ((\<forall>vs. jsonParse raw \<noteq> Some (JArr vs)) \<or>
    (\<exists>vs. jsonParse raw = Some (JArr vs) \<and> (\<forall>arr. \<not> list_all2 (textoDe nt) vs arr))
      \<longrightarrow> normalizar nt raw = stringify (parseToArrayLoose nt raw)) \<and>
   isStringArrayJSON (normalizar nt raw) \<and>
   (\<exists>arr. jsonParse (normalizar nt raw) = Some (JArr (map JStr arr))) \<and>
   (\<forall>v. measOrder (submitConfig nt p) = Some v \<or> targetList (submitConfig nt p) = Some v
      \<longrightarrow> isStringArrayJSON v)"
proof -
  have a: "normalizar nt raw = stringify arr"
    if "jsonParse raw = Some (JArr vs)" "list_all2 (textoDe nt) vs arr" for vs arr
    using that by (simp add: normalizar_def parseArrayStrict_def those_jsString_iff [symmetric])
  have b: "normalizar nt raw = stringify (parseToArrayLoose nt raw)"
    if "\<forall>vs. jsonParse raw \<noteq> Some (JArr vs)"
  proof -
    have "parseArrayStrict nt raw = None"
      using that by (auto simp add: parseArrayStrict_def split: option.splits json.splits)
    then show ?thesis by (simp add: normalizar_def)
  qed
  have c: "normalizar nt raw = stringify (parseToArrayLoose nt raw)"
    if "jsonParse raw = Some (JArr vs)" "\<forall>arr. \<not> list_all2 (textoDe nt) vs arr" for vs
    using that by (simp add: normalizar_def parseArrayStrict_def those_jsString_None_iff [symmetric])
  have n: "\<exists>arr. normalizar nt r = stringify arr" for r
    by (cases "parseArrayStrict nt r") (auto simp add: normalizar_def)
  have d: "isStringArrayJSON (normalizar nt r)" for r
    using n [of r] by (auto simp add: isStringArrayJSON_stringify)
  have e: "\<exists>arr. jsonParse (normalizar nt raw) = Some (JArr (map JStr arr))"
    using n [of raw] jsonParse_stringify by auto
  have f: "isStringArrayJSON v"
    if "measOrder (submitConfig nt p) = Some v \<or> targetList (submitConfig nt p) = Some v" for v
    using that d by (auto simp add: submitConfig_def)
  show ?thesis
    using a b c d e f by (auto simp add: submitConfig_def)
qed

theorem submit_normalizes_lists_witness:
  "measOrder (submitConfig id configInicial) = Some (js ''[\"spectralon\",\"target\"]'') \<and>
   targetList (submitConfig id configInicial) = Some (js ''[\"M1\",\"M2\"]'') \<and>
   isStringArrayJSON (js ''[\"M1\",\"M2\"]'') \<and>
   normalizar id (js ''[1, null, [2,null,3], {\"a\":1}, true, \"x,y\"]'')
     = stringify [js ''1'', js ''null'', js ''2,,3'', js ''[object Object]'', js ''true'', js ''x,y''] \<and>
   normalizar id (js ''\"M1\"'') = stringify [js ''M1''] \<and>
   normalizar id (js ''[{\"toString\":1}]'') = stringify [js ''{\"toString\":1}'']"
proof -
  let ?m = "js ''[\"spectralon\",\"target\"]''"
  let ?t = "js ''M1, M2''"
  let ?x = "js ''[{\"toString\":1}]''"
  let ?y = "js ''[1, null, [2,null,3], {\"a\":1}, true, \"x,y\"]''"
  let ?ys = "[JNum (js ''1''), JNull, JArr [JNum (js ''2''), JNull, JNum (js ''3'')],
              JObj [(js ''a'', JNum (js ''1''))], JBool True, JStr (js ''x,y'')]"
  let ?s = "js ''\"M1\"''"
  have f: "measOrder configInicial = Some ?m" "targetList configInicial = Some ?t"
    by (simp_all add: configInicial_def)
  have m: "jsonParse ?m = Some (JArr [JStr (js ''spectralon''), JStr (js ''target'')])"
    "stringify [js ''spectralon'', js ''target''] = ?m"
    by code_simp+
  have mt: "list_all2 (textoDe id) [JStr (js ''spectralon''), JStr (js ''target'')]
              [js ''spectralon'', js ''target'']"
    by (simp add: t_str)
  have t: "jsonParse ?t = None" "stringify (parseToArrayLoose id ?t) = js ''[\"M1\",\"M2\"]''"
    by code_simp+
  have y: "jsonParse ?y = Some (JArr ?ys)" by code_simp
  have "those (map (jsString id) ?ys)
          = Some [js ''1'', js ''null'', js ''2,,3'', js ''[object Object]'', js ''true'', js ''x,y'']"
    by code_simp
  then have yt: "list_all2 (textoDe id) ?ys
      [js ''1'', js ''null'', js ''2,,3'', js ''[object Object]'', js ''true'', js ''x,y'']"
    by (rule those_jsString_iff [THEN iffD1])
  have s: "jsonParse ?s = Some (JStr (js ''M1''))" "parseToArrayLoose id ?s = [js ''M1'']"
    by code_simp+
  have x: "jsonParse ?x = Some (JArr [JObj [(js ''toString'', JNum (js ''1''))]])"
    "parseToArrayLoose id ?x = [js ''{\"toString\":1}'']"
    by code_simp+
  have "those (map (jsString id) [JObj [(js ''toString'', JNum (js ''1''))]]) = None"
    by code_simp
  then have xt: "\<forall>arr. \<not> list_all2 (textoDe id) [JObj [(js ''toString'', JNum (js ''1''))]] arr"
    by (rule those_jsString_None_iff [THEN iffD1])
  have "normalizar id ?m = stringify [js ''spectralon'', js ''target'']"
    using submit_normalizes_lists [of id configInicial ?m] m(1) mt by blast
  then have n1: "normalizar id ?m = ?m"
    by (simp only: m(2))
  have "\<forall>vs. jsonParse ?t \<noteq> Some (JArr vs)" using t(1) by simp
  then have "normalizar id ?t = stringify (parseToArrayLoose id ?t)"
    using submit_normalizes_lists [of id configInicial ?t] by blast
  then have n2: "normalizar id ?t = js ''[\"M1\",\"M2\"]''"
    by (simp only: t(2))
  have n2': "isStringArrayJSON (normalizar id ?t)"
    using submit_normalizes_lists [of id configInicial ?t] by blast
  have n3: "normalizar id ?y
      = stringify [js ''1'', js ''null'', js ''2,,3'', js ''[object Object]'', js ''true'', js ''x,y'']"
    using submit_normalizes_lists [of id configInicial ?y] y yt by blast
  have "\<forall>vs. jsonParse ?s \<noteq> Some (JArr vs)" using s(1) by simp
  then have "normalizar id ?s = stringify (parseToArrayLoose id ?s)"
    using submit_normalizes_lists [of id configInicial ?s] by blast
  then have n4: "normalizar id ?s = stringify [js ''M1'']"
    by (simp only: s(2))
  have "\<exists>vs. jsonParse ?x = Some (JArr vs) \<and> (\<forall>arr. \<not> list_all2 (textoDe id) vs arr)"
    using x(1) xt by blast
  then have "normalizar id ?x = stringify (parseToArrayLoose id ?x)"
    using submit_normalizes_lists [of id configInicial ?x] by blast
  then have n5: "normalizar id ?x = stringify [js ''{\"toString\":1}'']"
    by (simp only: x(2))
  have sc: "measOrder (submitConfig id configInicial) = map_option (normalizar id) (measOrder configInicial)"
    "targetList (submitConfig id configInicial) = map_option (normalizar id) (targetList configInicial)"
    using submit_normalizes_lists [of id configInicial ?m] by blast+
  show ?thesis
    using sc f n1 n2 n2' n3 n4 n5 by simp
qed

text \<open>
  Claim C3 as stated fails on the value \<open>[{"toString":1},"a,b"]\<close>: it parses as an array
  of two elements, the conversion of the first throws, and the field becomes the
  serialization of the permissive parse, where the string element is split in two.
\<close>

theorem submit_normalization_splits_array_on_throw:
  "jsonParse (js ''[{\"toString\":1},\"a,b\"]'')
     = Some (JArr [JObj [(js ''toString'', JNum (js ''1''))], JStr (js ''a,b'')]) \<and>
   normalizar id (js ''[{\"toString\":1},\"a,b\"]'')
     = stringify [js ''{\"toString\":1}'', js ''a'', js ''b'']"
  by code_simp

text \<open>
  Claim C10. The permissive parse of the serialization of an array of strings is that
  array, and normalizing a serialized array gives it back unchanged. The editor opened
  on a field that holds the serialization of \<open>arr\<close> shows the pretty-printed \<open>arr\<close>, whose
  permissive parse is again \<open>arr\<close>; this is the case after \<open>applyEditor\<close> has committed
  \<open>arr\<close> to the field.
\<close>

theorem loose_parse_roundtrip:
  "parseToArrayLoose nt (stringify arr) = arr \<and>
   normalizar nt (stringify arr) = stringify arr \<and>
   parseToArrayLoose nt (stringifyPretty arr) = arr \<and>
   (hasModal p \<and> fieldValue f p = Some (stringify arr) \<longrightarrow>
      editorValue (openEditor nt f p) = stringifyPretty arr \<and>
      parseToArrayLoose nt (editorValue (openEditor nt f p)) = arr) \<and>
   (currentField p = Some f \<and> fieldValue f p \<noteq> None \<and> hasModal p \<and>
    parseToArrayLoose nt (editorValue p) = arr \<and> arr \<noteq> [] \<and>
    (f = MeasOrder \<longrightarrow> list_all (\<lambda>v. lc v \<in> set permitidos) arr) \<longrightarrow>
      fieldValue f (applyEditor lc nt p) = Some (stringify arr) \<and>
      editorValue (openEditor nt f (applyEditor lc nt p)) = stringifyPretty arr)"
proof -
  have r: "parseToArrayLoose nt (stringify xs) = xs" for xs
    by (simp add: parseToArrayLoose_def parseArrayStrict_stringify)
  have n: "normalizar nt (stringify arr) = stringify arr"
    by (simp add: normalizar_def parseArrayStrict_stringify)
  have rp: "parseToArrayLoose nt (stringifyPretty arr) = arr"
    by (simp add: parseToArrayLoose_def parseArrayStrict_stringifyPretty)
  have o: "editorValue (openEditor nt f q) = stringifyPretty xs"
    if "hasModal q" "fieldValue f q = Some (stringify xs)" for q xs
    using that by (simp add: openEditor_def r)
  have ap: "fieldValue f (applyEditor lc nt p) = Some (stringify arr) \<and>
            hasModal (applyEditor lc nt p)"
    if "currentField p = Some f" "fieldValue f p \<noteq> None" "hasModal p"
      "parseToArrayLoose nt (editorValue p) = arr" "arr \<noteq> []"
      "f = MeasOrder \<longrightarrow> list_all (\<lambda>v. lc v \<in> set permitidos) arr"
    using that by (cases f) (auto simp add: applyEditor_def Let_def)
  show ?thesis
    using r [of arr] n rp o [of p arr] o [of "applyEditor lc nt p" arr] ap by auto
qed

theorem loose_parse_roundtrip_witness:
  "parseToArrayLoose id (stringify [js ''spectralon'', js ''target'']) = [js ''spectralon'', js ''target''] \<and>
   parseToArrayLoose id (js ''Spectralon, target'') = [js ''Spectralon'', js ''target''] \<and>
   measOrder (applyEditor asciiLower id (configEditando MeasOrder (js ''Spectralon, target'')))
     = Some (stringify [js ''Spectralon'', js ''target'']) \<and>
   editorValue (openEditor id MeasOrder
       (applyEditor asciiLower id (configEditando MeasOrder (js ''Spectralon, target''))))
     = stringifyPretty [js ''Spectralon'', js ''target'']"
proof -
  let ?p = "configEditando MeasOrder (js ''Spectralon, target'')"
  let ?arr = "[js ''Spectralon'', js ''target'']"
  have e: "editorValue ?p = js ''Spectralon, target''" "currentField ?p = Some MeasOrder"
    "fieldValue MeasOrder ?p \<noteq> None" "hasModal ?p"
    by (simp_all add: configEditando_def configInicial_def)
  have v: "parseToArrayLoose id (js ''Spectralon, target'') = ?arr"
    "?arr \<noteq> []" "list_all (\<lambda>v. asciiLower v \<in> set permitidos) ?arr"
    by code_simp+
  have r: "parseToArrayLoose id (stringify [js ''spectralon'', js ''target'']) = [js ''spectralon'', js ''target'']"
    using loose_parse_roundtrip [of id "[js ''spectralon'', js ''target'']"] by blast
  have "fieldValue MeasOrder (applyEditor asciiLower id ?p) = Some (stringify ?arr) \<and>
      editorValue (openEditor id MeasOrder (applyEditor asciiLower id ?p)) = stringifyPretty ?arr"
    using loose_parse_roundtrip [of id ?arr ?p MeasOrder asciiLower] e v by simp
  with r v(1) show ?thesis by simp
qed

end
